theory Spec2Isabelle
  imports Complex_Main "HOL-Library.Stream"
begin

section \<open>Python strings and paths\<close>

text \<open>
  A Python \<open>str\<close> is a \<open>string\<close>. \<open>startswith\<close> is \<open>str.startswith\<close>, and
  \<open>str_nat\<close> is what an f-string prints for a non-negative \<open>int\<close>.
\<close>

definition startswith :: "string \<Rightarrow> string \<Rightarrow> bool" where
  "startswith s p = (take (length p) s = p)"

definition digit_char :: "nat \<Rightarrow> char" where
  "digit_char d = char_of (48 + d)"

fun str_nat :: "nat \<Rightarrow> string" where
  "str_nat n = (if n < 10 then [digit_char n] else str_nat (n div 10) @ [digit_char (n mod 10)])"

declare str_nat.simps [simp del]

text \<open>
  \<open>str.replace(old, new)\<close> for a non-empty \<open>old\<close>: every occurrence, left to right,
  without overlap.
\<close>

fun replace_all :: "string \<Rightarrow> string \<Rightarrow> string \<Rightarrow> string" where
  "replace_all old new [] = []"
| "replace_all old new (c # cs) =
     (if old \<noteq> [] \<and> startswith (c # cs) old
      then new @ replace_all old new (drop (length old - 1) cs)
      else c # replace_all old new cs)"

text \<open>
  The three functions of \<open>os.path\<close> (POSIX flavour) that the extractor calls:
  \<open>basename\<close> is what follows the last slash; \<open>splitext\<close> cuts at the last dot of
  the last component unless only dots precede it; \<open>join\<close> (two arguments) puts one slash
  between a non-empty directory and a relative name.
\<close>

definition rfind :: "string \<Rightarrow> char \<Rightarrow> int" where
  "rfind s c =
     (if c \<in> set s then int (length s) - 1 - int (length (takeWhile (\<lambda>x. x \<noteq> c) (rev s)))
      else - 1)"

definition basename :: "string \<Rightarrow> string" where
  "basename p = drop (nat (rfind p (CHR ''/'') + 1)) p"

definition splitext :: "string \<Rightarrow> string \<times> string" where
  "splitext p =
     (let sepIndex = rfind p (CHR ''/''); dotIndex = rfind p (CHR ''.'')
      in if dotIndex > sepIndex \<and>
            (\<exists>i \<in> set [nat (sepIndex + 1) ..< nat dotIndex]. p ! i \<noteq> CHR ''.'')
         then (take (nat dotIndex) p, drop (nat dotIndex) p)
         else (p, []))"

definition join :: "string \<Rightarrow> string \<Rightarrow> string" where
  "join a b =
     (if startswith b ''/'' then b
      else if a = [] \<or> last a = CHR ''/'' then a @ b
      else a @ ''/'' @ b)"

section \<open>The pattern of the Diagram-Extractor\<close>

text \<open>
  \<open>re.findall(r'```mermaid\n(.*?)\n```', content, re.DOTALL)\<close>. The pattern is the
  literal opening fence, a lazy group that takes any character (\<open>DOTALL\<close>), and the literal
  closing fence. \<open>lazy_body\<close> is the lazy group followed by the closing fence: at each
  position it first tries the closing fence and only then takes one more character.
  \<open>match_here\<close> is a match attempt at the start of the text; it gives the group and the
  text after the match. \<open>findall_mermaid\<close> scans from left to right: after a match it goes
  on behind it, after a failed attempt it moves one character on.
\<close>

definition fence_open :: string where
  "fence_open = ''```mermaid\<newline>''"

definition fence_close :: string where
  "fence_close = ''\<newline>```''"

fun lazy_body :: "string \<Rightarrow> (string \<times> string) option" where
  "lazy_body [] = None"
| "lazy_body (c # cs) =
     (if startswith (c # cs) fence_close then Some ([], drop (length fence_close) (c # cs))
      else (case lazy_body cs of None \<Rightarrow> None | Some (g, r) \<Rightarrow> Some (c # g, r)))"

definition match_here :: "string \<Rightarrow> (string \<times> string) option" where
  "match_here s =
     (if startswith s fence_open then lazy_body (drop (length fence_open) s) else None)"

lemma lazy_body_shape:
  "lazy_body s = Some (g, r) \<Longrightarrow> s = g @ fence_close @ r"
proof (induction s arbitrary: g r)
  case Nil
  then show ?case by simp
next
  case (Cons c cs)
  show ?case
  proof (cases "startswith (c # cs) fence_close")
    case True
    with Cons.prems have "g = []" and "r = drop (length fence_close) (c # cs)"
      by simp_all
    moreover from True have "c # cs = fence_close @ drop (length fence_close) (c # cs)"
      unfolding startswith_def by (metis append_take_drop_id)
    ultimately show ?thesis by simp
  next
    case False
    with Cons.prems obtain g' where g': "lazy_body cs = Some (g', r)" and g: "g = c # g'"
      by (auto split: option.splits)
    from Cons.IH [OF g'] g show ?thesis by simp
  qed
qed

lemma match_here_shape:
  "match_here s = Some (g, r) \<Longrightarrow> s = fence_open @ g @ fence_close @ r"
proof -
  assume m: "match_here s = Some (g, r)"
  then have p: "startswith s fence_open"
    and b: "lazy_body (drop (length fence_open) s) = Some (g, r)"
    by (auto simp: match_here_def split: if_splits)
  from p have "s = fence_open @ drop (length fence_open) s"
    unfolding startswith_def by (metis append_take_drop_id)
  with lazy_body_shape [OF b] show ?thesis by simp
qed

lemma match_here_shorter:
  "match_here s = Some (g, r) \<Longrightarrow> length r < length s"
  by (drule match_here_shape) (simp add: fence_open_def)

function findall_mermaid :: "string \<Rightarrow> string list" where
  "findall_mermaid s =
     (case match_here s of
        Some (g, rest) \<Rightarrow> g # findall_mermaid rest
      | None \<Rightarrow> (case s of [] \<Rightarrow> [] | c # cs \<Rightarrow> findall_mermaid cs))"
  by pat_completeness auto
termination
  by (relation "measure length") (auto dest: match_here_shorter)

declare findall_mermaid.simps [simp del]

section \<open>The Diagram-Extractor\<close>

text \<open>
  The file system is a map from paths to nodes; a regular file holds its text as
  \<open>f.read()\<close> returns it and \<open>f.write\<close> takes it. Paths are compared as strings, and
  the directories above a path are not modelled: \<open>makedirs\<close> (with \<open>exist_ok=True\<close>)
  fails only on the empty path and on a path that names a regular file, \<open>read_text\<close>
  (\<open>open(p, 'r')\<close> and \<open>read\<close>) fails on a missing path and on a directory, and
  \<open>write_text\<close> (\<open>open(p, 'w')\<close> and \<open>write\<close>) fails on a directory. \<open>stdout\<close>
  collects the argument of each \<open>print\<close> call.
\<close>

datatype exn =
    FileExistsError | FileNotFoundError | IsADirectoryError
  | AttributeError | TypeError | KeyError | IndexError
  | JSONDecodeError | ConnectionError | Timeout | BrokenPipeError
  | KeyboardInterrupt

datatype node = File string | Dir

record world =
  nodes :: "string \<rightharpoonup> node"
  stdout :: "string list"

definition print_line :: "string \<Rightarrow> world \<Rightarrow> world" where
  "print_line s w = w\<lparr>stdout := stdout w @ [s]\<rparr>"

definition path_exists :: "string \<Rightarrow> world \<Rightarrow> bool" where
  "path_exists p w = (nodes w p \<noteq> None)"

definition makedirs :: "string \<Rightarrow> world \<Rightarrow> exn + world" where
  "makedirs p w =
     (if p = [] then Inl FileNotFoundError
      else (case nodes w p of
              None \<Rightarrow> Inr (w\<lparr>nodes := (nodes w)(p \<mapsto> Dir)\<rparr>)
            | Some Dir \<Rightarrow> Inr w
            | Some (File c) \<Rightarrow> Inl FileExistsError))"

definition read_text :: "string \<Rightarrow> world \<Rightarrow> exn + string" where
  "read_text p w =
     (case nodes w p of
        None \<Rightarrow> Inl FileNotFoundError
      | Some Dir \<Rightarrow> Inl IsADirectoryError
      | Some (File c) \<Rightarrow> Inr c)"

definition write_text :: "string \<Rightarrow> string \<Rightarrow> world \<Rightarrow> exn + world" where
  "write_text p c w =
     (case nodes w p of
        Some Dir \<Rightarrow> Inl IsADirectoryError
      | _ \<Rightarrow> Inr (w\<lparr>nodes := (nodes w)(p \<mapsto> File c)\<rparr>))"

text \<open>
  \<open>diagram_path\<close> is the \<open>output_file\<close> of the loop body. \<open>save_diagrams\<close> is the loop
  \<open>for i, diagram in enumerate(diagrams, 1)\<close>, started at \<open>i\<close>; it returns the paths
  appended to \<open>diagram_files\<close>. An exception leaves the loop with the world as it is then.
\<close>

definition diagram_path :: "string \<Rightarrow> string \<Rightarrow> nat \<Rightarrow> string" where
  "diagram_path output_dir base_name i =
     join output_dir (base_name @ ''-diagram-'' @ str_nat i @ ''.mmd'')"

definition extracted_line :: "nat \<Rightarrow> string \<Rightarrow> string" where
  "extracted_line i output_file =
     ''Extracted diagram '' @ str_nat i @ '' to '' @ output_file"

fun save_diagrams ::
  "string \<Rightarrow> string \<Rightarrow> nat \<Rightarrow> string list \<Rightarrow> world \<Rightarrow> (exn + string list) \<times> world" where
  "save_diagrams output_dir base_name i [] w = (Inr [], w)"
| "save_diagrams output_dir base_name i (diagram # diagrams) w =
     (let output_file = diagram_path output_dir base_name i
      in case write_text output_file diagram w of
           Inl e \<Rightarrow> (Inl e, w)
         | Inr w1 \<Rightarrow>
             (let w2 = print_line (extracted_line i output_file) w1
              in case save_diagrams output_dir base_name (Suc i) diagrams w2 of
                   (Inl e, w3) \<Rightarrow> (Inl e, w3)
                 | (Inr files, w3) \<Rightarrow> (Inr (output_file # files), w3)))"

definition extract_mermaid_diagrams ::
  "string \<Rightarrow> string \<Rightarrow> world \<Rightarrow> (exn + string list) \<times> world" where
  "extract_mermaid_diagrams input_file output_dir w =
     (case makedirs output_dir w of
        Inl e \<Rightarrow> (Inl e, w)
      | Inr w1 \<Rightarrow>
          (case read_text input_file w1 of
             Inl e \<Rightarrow> (Inl e, w1)
           | Inr content \<Rightarrow>
               (let diagrams = findall_mermaid content;
                    base_name = fst (splitext (basename input_file))
                in save_diagrams output_dir base_name 1 diagrams w1)))"

text \<open>
  \<open>main\<close> gets \<open>sys.argv\<close>. \<open>Exited n\<close> is the exit status \<open>n\<close> (\<open>sys.exit(1)\<close>, or
  0 when \<open>main\<close> returns); \<open>Traceback e\<close> is an exception that nothing catches: the
  interpreter prints the traceback and the exit status is 1.
\<close>

datatype outcome = Exited nat | Traceback exn

fun exit_code :: "outcome \<Rightarrow> nat" where
  "exit_code (Exited n) = n"
| "exit_code (Traceback e) = 1"

definition usage :: string where
  "usage = ''Usage: extract-mermaid-diagrams.py <markdown-file> [output-dir]''"

definition default_output_dir :: string where
  "default_output_dir = ''docs/assets/diagrams/mermaid''"

definition render_command :: "string \<Rightarrow> string" where
  "render_command file =
     ''mmdc -i '' @ file @ '' -o '' @ replace_all ''.mmd'' ''.svg'' file
       @ '' --theme default --backgroundColor transparent''"

definition summary :: "string list \<Rightarrow> string list" where
  "summary diagram_files =
     [''\<newline>Extracted '' @ str_nat (length diagram_files) @ '' diagrams'',
      ''\<newline>To render these diagrams, run:''] @ map render_command diagram_files"

definition output_dir_arg :: "string list \<Rightarrow> string" where
  "output_dir_arg argv = (if length argv > 2 then argv ! 2 else default_output_dir)"

definition not_found :: "string \<Rightarrow> string" where
  "not_found input_file = ''Error: File '' @ input_file @ '' not found''"

definition main :: "string list \<Rightarrow> world \<Rightarrow> outcome \<times> world" where
  "main argv w =
     (if length argv < 2 then (Exited 1, print_line usage w)
      else
        (let input_file = argv ! 1;
             output_dir = output_dir_arg argv
         in if \<not> path_exists input_file w
            then (Exited 1, print_line (not_found input_file) w)
            else (case extract_mermaid_diagrams input_file output_dir w of
                    (Inl e, w1) \<Rightarrow> (Traceback e, w1)
                  | (Inr diagram_files, w1) \<Rightarrow>
                      (Exited 0, w1\<lparr>stdout := stdout w1 @ summary diagram_files\<rparr>))))"

section \<open>Python values\<close>

text \<open>
  What \<open>json.loads\<close> and \<open>response.json()\<close> return: \<open>None\<close>, a \<open>bool\<close>, an
  \<open>int\<close>, a \<open>float\<close>, a \<open>str\<close>, a \<open>list\<close> or a \<open>dict\<close> with string keys
  (an association list with the keys in insertion order; \<open>map_of\<close> looks a key up).
  The operations below are the ones the scripts apply to such values; each raises what
  Python raises on a value of the wrong type.
\<close>

datatype json =
    JNull | JBool bool | JInt int | JFloat real | JStr string
  | JArr "json list" | JObj "(string \<times> json) list"

text \<open>\<open>except Exception\<close> catches every exception class but those outside \<open>Exception\<close>.\<close>

fun is_Exception :: "exn \<Rightarrow> bool" where
  "is_Exception KeyboardInterrupt = False"
| "is_Exception e = True"

fun truthy :: "json \<Rightarrow> bool" where
  "truthy JNull = False"
| "truthy (JBool b) = b"
| "truthy (JInt i) = (i \<noteq> 0)"
| "truthy (JFloat x) = (x \<noteq> 0)"
| "truthy (JStr s) = (s \<noteq> [])"
| "truthy (JArr xs) = (xs \<noteq> [])"
| "truthy (JObj kvs) = (kvs \<noteq> [])"

text \<open>\<open>x.get(key, dflt)\<close>: only a \<open>dict\<close> has the method.\<close>

fun dict_get :: "json \<Rightarrow> string \<Rightarrow> json \<Rightarrow> exn + json" where
  "dict_get (JObj kvs) key dflt =
     Inr (case map_of kvs key of None \<Rightarrow> dflt | Some v \<Rightarrow> v)"
| "dict_get x key dflt = Inl AttributeError"

text \<open>\<open>x[key]\<close> with a string key.\<close>

fun getitem_key :: "json \<Rightarrow> string \<Rightarrow> exn + json" where
  "getitem_key (JObj kvs) key =
     (case map_of kvs key of None \<Rightarrow> Inl KeyError | Some v \<Rightarrow> Inr v)"
| "getitem_key x key = Inl TypeError"

text \<open>\<open>for item in x\<close>: the elements of a list, the characters of a string, the keys of a dict.\<close>

fun py_iter :: "json \<Rightarrow> exn + json list" where
  "py_iter (JArr xs) = Inr xs"
| "py_iter (JStr s) = Inr (map (\<lambda>c. JStr [c]) s)"
| "py_iter (JObj kvs) = Inr (map (\<lambda>kv. JStr (fst kv)) kvs)"
| "py_iter x = Inl TypeError"

section \<open>The API-Client\<close>

text \<open>
  The remote service is a parameter: a \<open>transport\<close> answers a request with a response or
  raises. A response carries its status code and what \<open>response.json()\<close> does when called:
  return the decoded body or raise. \<open>client_url\<close> is \<open>self.url\<close>.
\<close>

datatype http_method = GET | PUT | POST

record request =
  http_method :: http_method
  request_url :: string
  request_json :: "json option"

record response =
  status_code :: int
  json_body :: "exn + json"

type_synonym transport = "request \<Rightarrow> exn + response"

text \<open>
  \<open>try: body except Exception as e: handler\<close>: the handler runs for an exception of class
  \<open>Exception\<close>; any other exception leaves the method.
\<close>

definition except_Exception :: "exn + 'a \<Rightarrow> 'a \<Rightarrow> exn + 'a" where
  "except_Exception body handler =
     (case body of
        Inl e \<Rightarrow> (if is_Exception e then Inr handler else Inl e)
      | Inr v \<Rightarrow> Inr v)"

definition health_request :: "string \<Rightarrow> request" where
  "health_request client_url =
     \<lparr>http_method = GET, request_url = client_url @ ''/health'', request_json = None\<rparr>"

definition health_check_try :: "transport \<Rightarrow> string \<Rightarrow> exn + bool" where
  "health_check_try requests client_url =
     (case requests (health_request client_url) of
        Inl e \<Rightarrow> Inl e
      | Inr response \<Rightarrow>
          if status_code response = 200
          then (case json_body response of
                  Inl e \<Rightarrow> Inl e
                | Inr body \<Rightarrow>
                    (case dict_get body ''status'' JNull of
                       Inl e \<Rightarrow> Inl e
                     | Inr status \<Rightarrow> Inr (status = JStr ''ok'')))
          else Inr False)"

definition health_check :: "transport \<Rightarrow> string \<Rightarrow> exn + bool" where
  "health_check requests client_url =
     except_Exception (health_check_try requests client_url) False"

definition default_vector_size :: int where
  "default_vector_size = 1536"

definition collection_config :: "int \<Rightarrow> json" where
  "collection_config vector_size =
     JObj [(''vectors'', JObj [(''size'', JInt vector_size), (''distance'', JStr ''Cosine'')])]"

definition create_collection_request :: "string \<Rightarrow> string \<Rightarrow> int \<Rightarrow> request" where
  "create_collection_request client_url collection_name vector_size =
     \<lparr>http_method = PUT, request_url = client_url @ ''/collections/'' @ collection_name,
      request_json = Some (collection_config vector_size)\<rparr>"

definition create_collection :: "transport \<Rightarrow> string \<Rightarrow> string \<Rightarrow> int \<Rightarrow> exn + bool" where
  "create_collection requests client_url collection_name vector_size =
     except_Exception
       (case requests (create_collection_request client_url collection_name vector_size) of
          Inl e \<Rightarrow> Inl e
        | Inr response \<Rightarrow> Inr (status_code response \<in> {200, 201}))
       False"

text \<open>
  The comprehension \<open>[col["name"] for col in ...]\<close>. In \<open>list_collections\<close> and
  \<open>search_points\<close> the \<open>try\<close> block returns only when the status is 200; \<open>None\<close>
  stands for leaving the block without a \<open>return\<close>, after which \<open>return []\<close> runs.
\<close>

fun collection_names :: "json list \<Rightarrow> exn + json list" where
  "collection_names [] = Inr []"
| "collection_names (col # cols) =
     (case getitem_key col ''name'' of
        Inl e \<Rightarrow> Inl e
      | Inr name \<Rightarrow>
          (case collection_names cols of
             Inl e \<Rightarrow> Inl e
           | Inr names \<Rightarrow> Inr (name # names)))"

definition list_request :: "string \<Rightarrow> request" where
  "list_request client_url =
     \<lparr>http_method = GET, request_url = client_url @ ''/collections'', request_json = None\<rparr>"

definition list_collections_try :: "transport \<Rightarrow> string \<Rightarrow> exn + json list option" where
  "list_collections_try requests client_url =
     (case requests (list_request client_url) of
        Inl e \<Rightarrow> Inl e
      | Inr response \<Rightarrow>
          if status_code response = 200
          then (case json_body response of
                  Inl e \<Rightarrow> Inl e
                | Inr data \<Rightarrow>
                    (case dict_get data ''result'' (JObj []) of
                       Inl e \<Rightarrow> Inl e
                     | Inr result \<Rightarrow>
                         (case dict_get result ''collections'' (JArr []) of
                            Inl e \<Rightarrow> Inl e
                          | Inr collections \<Rightarrow>
                              (case py_iter collections of
                                 Inl e \<Rightarrow> Inl e
                               | Inr cols \<Rightarrow>
                                   (case collection_names cols of
                                      Inl e \<Rightarrow> Inl e
                                    | Inr names \<Rightarrow> Inr (Some names))))))
          else Inr None)"

definition list_collections :: "transport \<Rightarrow> string \<Rightarrow> exn + json list" where
  "list_collections requests client_url =
     (case except_Exception (list_collections_try requests client_url) None of
        Inl e \<Rightarrow> Inl e
      | Inr (Some names) \<Rightarrow> Inr names
      | Inr None \<Rightarrow> Inr [])"

definition upsert_request :: "string \<Rightarrow> string \<Rightarrow> json list \<Rightarrow> request" where
  "upsert_request client_url collection_name points =
     \<lparr>http_method = PUT,
      request_url = client_url @ ''/collections/'' @ collection_name @ ''/points'',
      request_json = Some (JObj [(''points'', JArr points)])\<rparr>"

definition upsert_points :: "transport \<Rightarrow> string \<Rightarrow> string \<Rightarrow> json list \<Rightarrow> exn + bool" where
  "upsert_points requests client_url collection_name points =
     except_Exception
       (case requests (upsert_request client_url collection_name points) of
          Inl e \<Rightarrow> Inl e
        | Inr response \<Rightarrow> Inr (status_code response = 200))
       False"

definition search_payload :: "real list \<Rightarrow> int \<Rightarrow> real \<Rightarrow> json" where
  "search_payload query_vector limit score_threshold =
     JObj [(''vector'', JArr (map JFloat query_vector)),
           (''limit'', JInt limit),
           (''score_threshold'', JFloat score_threshold),
           (''with_payload'', JBool True),
           (''with_vector'', JBool False)]"

definition search_request :: "string \<Rightarrow> string \<Rightarrow> real list \<Rightarrow> int \<Rightarrow> real \<Rightarrow> request" where
  "search_request client_url collection_name query_vector limit score_threshold =
     \<lparr>http_method = POST,
      request_url = client_url @ ''/collections/'' @ collection_name @ ''/points/search'',
      request_json = Some (search_payload query_vector limit score_threshold)\<rparr>"

definition search_points_try ::
  "transport \<Rightarrow> string \<Rightarrow> string \<Rightarrow> real list \<Rightarrow> int \<Rightarrow> real \<Rightarrow> exn + json option" where
  "search_points_try requests client_url collection_name query_vector limit score_threshold =
     (case requests
             (search_request client_url collection_name query_vector limit score_threshold) of
        Inl e \<Rightarrow> Inl e
      | Inr response \<Rightarrow>
          if status_code response = 200
          then (case json_body response of
                  Inl e \<Rightarrow> Inl e
                | Inr body \<Rightarrow>
                    (case dict_get body ''result'' (JArr []) of
                       Inl e \<Rightarrow> Inl e
                     | Inr result \<Rightarrow> Inr (Some result)))
          else Inr None)"

definition search_points ::
  "transport \<Rightarrow> string \<Rightarrow> string \<Rightarrow> real list \<Rightarrow> int \<Rightarrow> real \<Rightarrow> exn + json" where
  "search_points requests client_url collection_name query_vector limit score_threshold =
     (case except_Exception
             (search_points_try requests client_url collection_name query_vector limit
                score_threshold) None of
        Inl e \<Rightarrow> Inl e
      | Inr (Some result) \<Rightarrow> Inr result
      | Inr None \<Rightarrow> Inr (JArr []))"

text \<open>
  A transport raises only exceptions of class \<open>Exception\<close> (as the exceptions of the
  HTTP library and of JSON decoding are), both in the call and in \<open>response.json()\<close>.
\<close>

definition raises_only_Exception :: "transport \<Rightarrow> bool" where
  "raises_only_Exception requests =
     (\<forall>req. case requests req of
              Inl e \<Rightarrow> is_Exception e
            | Inr response \<Rightarrow>
                (case json_body response of Inl e \<Rightarrow> is_Exception e | Inr body \<Rightarrow> True))"

section \<open>The RPC-Probe\<close>

text \<open>
  More operations on Python values: \<open>len(x)\<close>, the slice \<open>x[:n]\<close> and \<open>x[0]\<close>.
  Slicing a dict raises (\<open>TypeError\<close> or, from Python 3.12 on, \<open>KeyError\<close>; the model
  has \<open>TypeError\<close>). \<open>strip\<close> is \<open>str.strip()\<close> for the ASCII whitespace characters.
\<close>

fun py_len :: "json \<Rightarrow> exn + nat" where
  "py_len (JArr xs) = Inr (length xs)"
| "py_len (JStr s) = Inr (length s)"
| "py_len (JObj kvs) = Inr (length kvs)"
| "py_len x = Inl TypeError"

fun slice_to :: "nat \<Rightarrow> json \<Rightarrow> exn + json" where
  "slice_to n (JArr xs) = Inr (JArr (take n xs))"
| "slice_to n (JStr s) = Inr (JStr (take n s))"
| "slice_to n x = Inl TypeError"

fun index0 :: "json \<Rightarrow> exn + json" where
  "index0 (JArr []) = Inl IndexError"
| "index0 (JArr (x # xs)) = Inr x"
| "index0 (JStr []) = Inl IndexError"
| "index0 (JStr (c # cs)) = Inr (JStr [c])"
| "index0 (JObj kvs) = Inl KeyError"
| "index0 x = Inl TypeError"

definition is_space :: "char \<Rightarrow> bool" where
  "is_space c = (c \<in> set [CHR 0x09, CHR 0x0A, CHR 0x0B, CHR 0x0C, CHR 0x0D,
                          CHR 0x1C, CHR 0x1D, CHR 0x1E, CHR 0x1F, CHR 0x20])"

definition strip :: "string \<Rightarrow> string" where
  "strip s = rev (dropWhile is_space (rev (dropWhile is_space s)))"

text \<open>
  The server process as the probe sees it. \<open>out\<close> is what each further call of
  \<open>process.stdout.readline()\<close> gives: \<open>Some line\<close> (the empty string at end of stream),
  or \<open>None\<close> when the call never returns because the stream stays open and silent.
  \<open>writable\<close> says for each further write to \<open>process.stdin\<close> whether it succeeds;
  \<open>sent\<close> lists the requests written so far (the model keeps the request, not its text).
  \<open>stops_in_time\<close> says whether the process ends within the five seconds that
  \<open>process.wait\<close> allows after \<open>terminate\<close>. \<open>json.loads\<close> is the parameter \<open>loads\<close>:
  it gives the value of a text it accepts, and \<open>None\<close> where it raises
  \<open>JSONDecodeError\<close>. What the probe prints is not modelled, only the exceptions that
  computing the printed values can raise.
\<close>

record process =
  writable :: "bool stream"
  sent :: "json list"
  out :: "string option stream"
  stops_in_time :: bool
  terminate_called :: bool
  kill_called :: bool

text \<open>
  The loop \<open>while True\<close> of \<open>send_mcp_request\<close>. It need not end, so its result is an
  option: \<open>None\<close> is a call that never returns. A returned \<open>JNull\<close> is Python's \<open>None\<close>.
\<close>

partial_function (option) read_response ::
  "(string \<Rightarrow> json option) \<Rightarrow> process \<Rightarrow> (json \<times> process) option" where
  "read_response loads p =
     (case shd (out p) of
        None \<Rightarrow> None
      | Some line \<Rightarrow>
          if line = [] then Some (JNull, p\<lparr>out := stl (out p)\<rparr>)
          else if strip line = [] then read_response loads (p\<lparr>out := stl (out p)\<rparr>)
          else if startswith (strip line) ''time=''
            then read_response loads (p\<lparr>out := stl (out p)\<rparr>)
          else (case loads (strip line) of
                  Some response \<Rightarrow> Some (response, p\<lparr>out := stl (out p)\<rparr>)
                | None \<Rightarrow> read_response loads (p\<lparr>out := stl (out p)\<rparr>)))"

definition send_mcp_request ::
  "(string \<Rightarrow> json option) \<Rightarrow> process \<Rightarrow> json \<Rightarrow> (json \<times> process) option" where
  "send_mcp_request loads p request =
     (if shd (writable p)
      then read_response loads
             (p\<lparr>writable := stl (writable p), sent := sent p @ [request]\<rparr>)
      else Some (JNull, p\<lparr>writable := stl (writable p)\<rparr>))"

definition init_request :: json where
  "init_request =
     JObj [(''jsonrpc'', JStr ''2.0''), (''id'', JInt 1), (''method'', JStr ''initialize''),
           (''params'', JObj [(''protocolVersion'', JStr ''2024-11-05''),
                              (''capabilities'', JObj [])])]"

definition tools_request :: json where
  "tools_request =
     JObj [(''jsonrpc'', JStr ''2.0''), (''id'', JInt 2), (''method'', JStr ''tools/list''),
           (''params'', JObj [])]"

definition tool_request :: "json \<Rightarrow> json" where
  "tool_request tool_name =
     JObj [(''jsonrpc'', JStr ''2.0''), (''id'', JInt 3), (''method'', JStr ''tools/call''),
           (''params'', JObj [(''name'', tool_name), (''arguments'', JObj [])])]"

text \<open>The condition \<open>response and response.get('result')\<close>.\<close>

definition has_result :: "json \<Rightarrow> exn + bool" where
  "has_result response =
     (if \<not> truthy response then Inr False
      else (case dict_get response ''result'' JNull of
              Inl e \<Rightarrow> Inl e
            | Inr result \<Rightarrow> Inr (truthy result)))"

text \<open>The values printed after a successful initialize.\<close>

definition show_server_info :: "json \<Rightarrow> exn + unit" where
  "show_server_info response =
     (case getitem_key response ''result'' of
        Inl e \<Rightarrow> Inl e
      | Inr result \<Rightarrow>
          (case dict_get result ''serverInfo'' (JObj []) of
             Inl e \<Rightarrow> Inl e
           | Inr server_info \<Rightarrow>
               (case dict_get server_info ''name'' (JStr ''Unknown'') of
                  Inl e \<Rightarrow> Inl e
                | Inr name \<Rightarrow>
                    (case dict_get server_info ''version'' (JStr ''Unknown'') of
                       Inl e \<Rightarrow> Inl e
                     | Inr version \<Rightarrow> Inr ()))))"

text \<open>The loop \<open>for tool in tools[:5]\<close> and the values printed before it.\<close>

fun show_tool_lines :: "json list \<Rightarrow> exn + unit" where
  "show_tool_lines [] = Inr ()"
| "show_tool_lines (tool # tools) =
     (case dict_get tool ''name'' (JStr ''Unknown'') of
        Inl e \<Rightarrow> Inl e
      | Inr name \<Rightarrow>
          (case dict_get tool ''description'' (JStr ''No description'') of
             Inl e \<Rightarrow> Inl e
           | Inr description \<Rightarrow>
               (case slice_to 80 description of
                  Inl e \<Rightarrow> Inl e
                | Inr shown \<Rightarrow> show_tool_lines tools)))"

definition show_tools :: "json \<Rightarrow> exn + unit" where
  "show_tools response =
     (case getitem_key response ''result'' of
        Inl e \<Rightarrow> Inl e
      | Inr result \<Rightarrow>
          (case dict_get result ''tools'' (JArr []) of
             Inl e \<Rightarrow> Inl e
           | Inr tools \<Rightarrow>
               (case py_len tools of
                  Inl e \<Rightarrow> Inl e
                | Inr n \<Rightarrow>
                    (case slice_to 5 tools of
                       Inl e \<Rightarrow> Inl e
                     | Inr first5 \<Rightarrow>
                         (case py_iter first5 of
                            Inl e \<Rightarrow> Inl e
                          | Inr items \<Rightarrow> show_tool_lines items)))))"

text \<open>The preview printed after a successful tool call.\<close>

definition show_preview :: "json \<Rightarrow> exn + unit" where
  "show_preview response =
     (case dict_get response ''result'' (JObj []) of
        Inl e \<Rightarrow> Inl e
      | Inr result \<Rightarrow>
          (case dict_get result ''content'' (JArr []) of
             Inl e \<Rightarrow> Inl e
           | Inr content \<Rightarrow>
               if \<not> truthy content then Inr ()
               else (case py_len content of
                       Inl e \<Rightarrow> Inl e
                     | Inr n \<Rightarrow>
                         if \<not> n > 0 then Inr ()
                         else (case index0 content of
                                 Inl e \<Rightarrow> Inl e
                               | Inr first \<Rightarrow>
                                   (case dict_get first ''text'' (JStr []) of
                                      Inl e \<Rightarrow> Inl e
                                    | Inr text \<Rightarrow>
                                        (case slice_to 200 text of
                                           Inl e \<Rightarrow> Inl e
                                         | Inr shown \<Rightarrow> Inr ()))))))"

text \<open>
  The three tests of \<open>test_mcp_server\<close>. Each gives the exception raised inside it, if
  any, and the process as it is then; \<open>None\<close> is a test whose request never returns.
  \<open>test_initialize\<close> gives \<open>False\<close> when it ends the function with \<open>return\<close>.
  \<open>test_list_tools\<close> gives the response, which the third test looks at again.
\<close>

definition test_initialize ::
  "(string \<Rightarrow> json option) \<Rightarrow> process \<Rightarrow> ((exn + bool) \<times> process) option" where
  "test_initialize loads p =
     (case send_mcp_request loads p init_request of
        None \<Rightarrow> None
      | Some (response, p1) \<Rightarrow>
          Some (case has_result response of
                  Inl e \<Rightarrow> Inl e
                | Inr True \<Rightarrow>
                    (case show_server_info response of Inl e \<Rightarrow> Inl e | Inr u \<Rightarrow> Inr True)
                | Inr False \<Rightarrow> Inr False,
                p1))"

definition test_list_tools ::
  "(string \<Rightarrow> json option) \<Rightarrow> process \<Rightarrow> ((exn + json) \<times> process) option" where
  "test_list_tools loads p =
     (case send_mcp_request loads p tools_request of
        None \<Rightarrow> None
      | Some (response, p1) \<Rightarrow>
          Some (case has_result response of
                  Inl e \<Rightarrow> Inl e
                | Inr True \<Rightarrow>
                    (case show_tools response of Inl e \<Rightarrow> Inl e | Inr u \<Rightarrow> Inr response)
                | Inr False \<Rightarrow> Inr response,
                p1))"

definition test_call_tool ::
  "(string \<Rightarrow> json option) \<Rightarrow> json \<Rightarrow> process \<Rightarrow> ((exn + unit) \<times> process) option" where
  "test_call_tool loads response p =
     (case has_result response of
        Inl e \<Rightarrow> Some (Inl e, p)
      | Inr False \<Rightarrow> Some (Inr (), p)
      | Inr True \<Rightarrow>
          (case getitem_key response ''result'' of
             Inl e \<Rightarrow> Some (Inl e, p)
           | Inr result \<Rightarrow>
               (case dict_get result ''tools'' (JArr []) of
                  Inl e \<Rightarrow> Some (Inl e, p)
                | Inr tools \<Rightarrow>
                    if \<not> truthy tools then Some (Inr (), p)
                    else (case index0 tools of
                            Inl e \<Rightarrow> Some (Inl e, p)
                          | Inr first_tool \<Rightarrow>
                              (case dict_get first_tool ''name'' JNull of
                                 Inl e \<Rightarrow> Some (Inl e, p)
                               | Inr tool_name \<Rightarrow>
                                   (case send_mcp_request loads p (tool_request tool_name) of
                                      None \<Rightarrow> None
                                    | Some (response2, p1) \<Rightarrow>
                                        Some (case has_result response2 of
                                                Inl e \<Rightarrow> Inl e
                                              | Inr True \<Rightarrow> show_preview response2
                                              | Inr False \<Rightarrow> Inr (),
                                              p1)))))))"

text \<open>
  The \<open>try\<close> block after the process has started: the tests in order. The result says
  which exception \<open>except Exception\<close> caught, if any. Every exception the tests can raise is
  of class \<open>Exception\<close>.
\<close>

definition run_tests ::
  "(string \<Rightarrow> json option) \<Rightarrow> process \<Rightarrow> (exn option \<times> process) option" where
  "run_tests loads p =
     (case test_initialize loads p of
        None \<Rightarrow> None
      | Some (Inl e, p1) \<Rightarrow> Some (Some e, p1)
      | Some (Inr False, p1) \<Rightarrow> Some (None, p1)
      | Some (Inr True, p1) \<Rightarrow>
          (case test_list_tools loads p1 of
             None \<Rightarrow> None
           | Some (Inl e, p2) \<Rightarrow> Some (Some e, p2)
           | Some (Inr response, p2) \<Rightarrow>
               (case test_call_tool loads response p2 of
                  None \<Rightarrow> None
                | Some (Inl e, p3) \<Rightarrow> Some (Some e, p3)
                | Some (Inr u, p3) \<Rightarrow> Some (None, p3))))"

text \<open>
  The \<open>finally\<close> block: \<open>terminate\<close>, then \<open>wait(timeout=5)\<close>, and \<open>kill\<close> when the
  wait raises.
\<close>

definition teardown :: "process \<Rightarrow> process" where
  "teardown p =
     (if stops_in_time p then p\<lparr>terminate_called := True\<rparr>
      else p\<lparr>terminate_called := True, kill_called := True\<rparr>)"

text \<open>
  \<open>test_mcp_server\<close> gets what \<open>subprocess.Popen\<close> does: raise, or return the process.
  When \<open>Popen\<close> raises there is no process; the \<open>finally\<close> block then fails on the
  unbound name and swallows that.
\<close>

datatype probe_end = NotStarted exn | Finished "exn option" process

definition test_mcp_server ::
  "(string \<Rightarrow> json option) \<Rightarrow> exn + process \<Rightarrow> probe_end option" where
  "test_mcp_server loads popen =
     (case popen of
        Inl e \<Rightarrow> Some (NotStarted e)
      | Inr p \<Rightarrow>
          (case run_tests loads p of
             None \<Rightarrow> None
           | Some (caught, p1) \<Rightarrow> Some (Finished caught (teardown p1))))"

section \<open>The terms of the specification\<close>

subsection \<open>The fenced blocks of a document\<close>

text \<open>
  What the specification calls the matching fenced blocks of a document, stated without the
  scan: a block starts where the text reads opening fence, body, closing fence
  (\<open>starts_block\<close>). \<open>fenced_blocks s ds\<close> says that \<open>ds\<close> are the bodies of the
  blocks of \<open>s\<close> in document order: the first block is the leftmost one (no block starts
  inside the gap \<open>g\<close> before it), its body ends at the first closing fence (no shorter
  body fits), and the remaining blocks are those of the text behind its closing fence, so
  blocks do not overlap.
\<close>

definition starts_block :: "string \<Rightarrow> bool" where
  "starts_block s = (\<exists>d r. s = fence_open @ d @ fence_close @ r)"

inductive fenced_blocks :: "string \<Rightarrow> string list \<Rightarrow> bool" where
  no_block: "(\<forall>g t. s = g @ t \<longrightarrow> \<not> starts_block t) \<Longrightarrow> fenced_blocks s []"
| block: "s = g @ fence_open @ d @ fence_close @ r
    \<Longrightarrow> (\<forall>g1 g2. g = g1 @ g2 \<and> g2 \<noteq> [] \<longrightarrow> \<not> starts_block (g2 @ fence_open @ d @ fence_close @ r))
    \<Longrightarrow> (\<forall>d' r'. d @ fence_close @ r = d' @ fence_close @ r' \<longrightarrow> length d \<le> length d')
    \<Longrightarrow> fenced_blocks r ds
    \<Longrightarrow> fenced_blocks s (d # ds)"

subsection \<open>Lines that are not responses\<close>

text \<open>
  A line that the loop reads over: it is not the end of the stream, and after \<open>strip\<close>
  it is empty, begins with the log prefix \<open>time=\<close>, or is rejected by \<open>json.loads\<close>.
\<close>

definition discarded :: "(string \<Rightarrow> json option) \<Rightarrow> string \<Rightarrow> bool" where
  "discarded loads line =
     (line \<noteq> [] \<and> (strip line = [] \<or> startswith (strip line) ''time='' \<or> loads (strip line) = None))"

subsection \<open>The collection request with a distance parameter\<close>

text \<open>
  The specification writes the operation as
  \<open>create_collection(name, vector_size, distance="cosine")\<close>. \<open>collection_config_spec\<close>
  is the request body that signature describes, with the distance taken from the argument.
\<close>

definition collection_config_spec :: "int \<Rightarrow> string \<Rightarrow> json" where
  "collection_config_spec vector_size distance =
     JObj [(''vectors'', JObj [(''size'', JInt vector_size), (''distance'', JStr distance)])]"

section \<open>Example inputs\<close>

subsection \<open>Documents and file systems\<close>

text \<open>
  \<open>three_blocks\<close> is a document with three mermaid blocks (the last one empty) and one
  block of another language; \<open>three_block_world\<close> holds it as \<open>docs/design.md\<close> and
  nothing else. \<open>design_world\<close> holds one document with one diagram. In
  \<open>blocked_world\<close> the path chosen as output directory names a regular file.
\<close>

definition three_blocks :: string where
  "three_blocks =
     ''# Design\<newline>```mermaid\<newline>graph TD\<newline>  A --> B\<newline>```\<newline>text\<newline>```mermaid\<newline>sequenceDiagram\<newline>```\<newline>```python\<newline>x = 1\<newline>```\<newline>```mermaid\<newline>\<newline>```\<newline>''"

definition design_md :: string where
  "design_md = ''docs/design.md''"

definition three_block_world :: world where
  "three_block_world = \<lparr>nodes = [design_md \<mapsto> File three_blocks], stdout = []\<rparr>"

definition three_names :: "string list" where
  "three_names =
     [''docs/assets/diagrams/mermaid/design-diagram-1.mmd'',
      ''docs/assets/diagrams/mermaid/design-diagram-2.mmd'',
      ''docs/assets/diagrams/mermaid/design-diagram-3.mmd'']"

definition design_world :: world where
  "design_world =
     \<lparr>nodes = [''design.md'' \<mapsto> File ''intro\<newline>```mermaid\<newline>graph TD\<newline>```\<newline>''],
      stdout = []\<rparr>"

definition blocked_world :: world where
  "blocked_world =
     \<lparr>nodes = [''design.md'' \<mapsto> File ''```mermaid\<newline>graph TD\<newline>```'',
               ''out'' \<mapsto> File ''x''],
      stdout = []\<rparr>"

subsection \<open>Services\<close>

text \<open>
  \<open>QDRANT_URL\<close> is the module's default base URL. \<open>unreachable\<close> is a service that
  cannot be connected to; \<open>answers code body\<close> gives every request the same status code
  and the same outcome of \<open>response.json()\<close>.
\<close>

definition QDRANT_URL :: string where
  "QDRANT_URL = ''http://localhost:6333''"

definition unreachable :: transport where
  "unreachable req = Inl ConnectionError"

definition answers :: "int \<Rightarrow> exn + json \<Rightarrow> transport" where
  "answers code body req = Inr \<lparr>status_code = code, json_body = body\<rparr>"

subsection \<open>Transcripts of a server\<close>

text \<open>
  Three transcripts of a server and a parser for them. \<open>canned_loads\<close> stands for
  \<open>json.loads\<close> on the four response texts of the scripts and rejects every other text.
  In \<open>good_transcript\<close> the server answers all three requests between log lines; in
  \<open>bad_transcript\<close> its answer to \<open>initialize\<close> carries an error and no result; in
  \<open>closed_transcript\<close> the stream ends before any response. \<open>at_line k msgs\<close> is the
  process of the good transcript after \<open>k\<close> lines have been read and \<open>msgs\<close> sent.
  On the good transcript the probe sends \<open>initialize\<close>, \<open>tools/list\<close> and
  \<open>tools/call\<close> in this order and then terminates the process
  (\<open>good_transcript_run\<close>).
\<close>

definition init_ok :: json where
  "init_ok =
     JObj [(''jsonrpc'', JStr ''2.0''), (''id'', JInt 1),
           (''result'', JObj [(''serverInfo'',
              JObj [(''name'', JStr ''prompt-alchemy''), (''version'', JStr ''1.0'')])])]"

definition init_error :: json where
  "init_error =
     JObj [(''jsonrpc'', JStr ''2.0''), (''id'', JInt 1),
           (''error'', JObj [(''code'', JInt (- 32600)), (''message'', JStr ''Invalid Request'')])]"

definition tools_ok :: json where
  "tools_ok =
     JObj [(''jsonrpc'', JStr ''2.0''), (''id'', JInt 2),
           (''result'', JObj [(''tools'',
              JArr [JObj [(''name'', JStr ''get_config''),
                          (''description'', JStr ''Show the configuration'')]])])]"

definition call_ok :: json where
  "call_ok =
     JObj [(''jsonrpc'', JStr ''2.0''), (''id'', JInt 3),
           (''result'', JObj [(''content'',
              JArr [JObj [(''type'', JStr ''text''), (''text'', JStr ''providers: 2'')]])])]"

definition canned_loads :: "string \<Rightarrow> json option" where
  "canned_loads s =
     (if s = ''INIT-OK'' then Some init_ok
      else if s = ''INIT-ERROR'' then Some init_error
      else if s = ''TOOLS'' then Some tools_ok
      else if s = ''CALLED'' then Some call_ok
      else None)"

definition server_with :: "string option stream \<Rightarrow> process" where
  "server_with lines =
     \<lparr>writable = sconst True, sent = [], out = lines, stops_in_time = True,
      terminate_called = False, kill_called = False\<rparr>"

definition log_line :: string where
  "log_line = ''time=2025-01-01T00:00:00Z level=info msg=starting\<newline>''"

definition good_transcript :: "string option stream" where
  "good_transcript =
     Some log_line ## Some ''\<newline>'' ## Some ''INIT-OK\<newline>'' ## Some ''TOOLS\<newline>''
       ## Some ''Error: not json\<newline>'' ## Some ''CALLED\<newline>'' ## sconst (Some [])"

definition bad_transcript :: "string option stream" where
  "bad_transcript =
     Some log_line ## Some ''INIT-ERROR\<newline>'' ## Some ''TOOLS\<newline>'' ## sconst (Some [])"

definition closed_transcript :: "string option stream" where
  "closed_transcript =
     Some log_line ## Some ''Error: no configuration\<newline>'' ## sconst (Some [])"

definition at_line :: "nat \<Rightarrow> json list \<Rightarrow> process" where
  "at_line k msgs =
     \<lparr>writable = sconst True, sent = msgs, out = sdrop k good_transcript, stops_in_time = True,
      terminate_called = False, kill_called = False\<rparr>"

section \<open>The Diagram-Extractor: facts and claims\<close>

subsection \<open>Facts about the names of the diagram files\<close>

lemma digit_char_inject:
  "m < 10 \<Longrightarrow> n < 10 \<Longrightarrow> digit_char m = digit_char n \<Longrightarrow> m = n"
proof -
  assume m: "m < 10" and n: "n < 10" and e: "digit_char m = digit_char n"
  from e have "of_char (char_of (48 + m) :: char) = (of_char (char_of (48 + n) :: char) :: nat)"
    by (simp add: digit_char_def)
  with m n show "m = n" by simp
qed

lemma str_nat_nonempty: "str_nat n \<noteq> []"
  by (subst str_nat.simps) simp

lemma str_nat_inject: "str_nat m = str_nat n \<Longrightarrow> m = n"
proof (induction m arbitrary: n rule: str_nat.induct)
  case (1 m)
  show ?case
  proof (cases "m < 10")
    case True
    then have sm: "str_nat m = [digit_char m]" by (subst str_nat.simps) simp
    show ?thesis
    proof (cases "n < 10")
      case True
      then have "str_nat n = [digit_char n]" by (subst str_nat.simps) simp
      with sm "1.prems" have "digit_char m = digit_char n" by simp
      with \<open>m < 10\<close> True show ?thesis by (rule digit_char_inject)
    next
      case False
      then have "str_nat n = str_nat (n div 10) @ [digit_char (n mod 10)]"
        by (subst str_nat.simps) simp
      with sm "1.prems" have "str_nat (n div 10) = []" by simp
      then show ?thesis by (simp add: str_nat_nonempty)
    qed
  next
    case False
    then have sm: "str_nat m = str_nat (m div 10) @ [digit_char (m mod 10)]"
      by (subst str_nat.simps) simp
    show ?thesis
    proof (cases "n < 10")
      case True
      then have "str_nat n = [digit_char n]" by (subst str_nat.simps) simp
      with sm "1.prems" have "str_nat (m div 10) = []" by simp
      then show ?thesis by (simp add: str_nat_nonempty)
    next
      case nbig: False
      then have "str_nat n = str_nat (n div 10) @ [digit_char (n mod 10)]"
        by (subst str_nat.simps) simp
      with sm "1.prems" have a: "str_nat (m div 10) = str_nat (n div 10)"
        and b: "digit_char (m mod 10) = digit_char (n mod 10)" by simp_all
      from "1.IH" [OF False a] have "m div 10 = n div 10" .
      moreover from b have "m mod 10 = n mod 10" by (intro digit_char_inject) simp_all
      ultimately show ?thesis by (metis div_mult_mod_eq)
    qed
  qed
qed

lemma digit_char_not_slash: "d < 10 \<Longrightarrow> digit_char d \<noteq> CHR ''/''"
proof
  assume d: "d < 10" and e: "digit_char d = CHR ''/''"
  from e have "of_char (char_of (48 + d) :: char) = (of_char (CHR ''/'') :: nat)"
    by (simp add: digit_char_def)
  with d show False by simp
qed

lemma str_nat_no_slash: "CHR ''/'' \<notin> set (str_nat n)"
proof (induction n rule: str_nat.induct)
  case (1 n)
  show ?case
  proof (cases "n < 10")
    case True
    then show ?thesis
      using digit_char_not_slash [of n] by (subst str_nat.simps) auto
  next
    case False
    with "1.IH" show ?thesis
      using digit_char_not_slash [of "n mod 10"] by (subst str_nat.simps) auto
  qed
qed

lemma rfind_absent: "c \<notin> set s \<Longrightarrow> rfind s c = - 1"
  by (simp add: rfind_def)

lemma rfind_present:
  assumes "c \<in> set s"
  shows "0 \<le> rfind s c" and "rfind s c < int (length s)" and "s ! nat (rfind s c) = c"
proof -
  let ?k = "length (takeWhile (\<lambda>x. x \<noteq> c) (rev s))"
  have "?k < length (rev s)"
  proof (rule ccontr)
    assume "\<not> ?k < length (rev s)"
    then have "take ?k (rev s) = rev s" by simp
    then have "takeWhile (\<lambda>x. x \<noteq> c) (rev s) = rev s"
      using takeWhile_eq_take [of "\<lambda>x. x \<noteq> c" "rev s"] by simp
    then have "\<forall>x \<in> set (rev s). x \<noteq> c"
      by (metis (mono_tags) set_takeWhileD)
    with assms show False by auto
  qed
  then have k: "?k < length s" by simp
  have r: "rfind s c = int (length s) - 1 - int ?k" using assms by (simp add: rfind_def)
  from k r show "0 \<le> rfind s c" and "rfind s c < int (length s)" by simp_all
  from k have "rev s ! ?k = c"
    using nth_length_takeWhile [of "\<lambda>x. x \<noteq> c" "rev s"] by simp
  moreover from k have "rev s ! ?k = s ! (length s - Suc ?k)" by (simp add: rev_nth)
  moreover from k r have "nat (rfind s c) = length s - Suc ?k" by simp
  ultimately show "s ! nat (rfind s c) = c" by simp
qed

lemma rfind_after: "c \<notin> set b \<Longrightarrow> rfind (a @ c # b) c = int (length a)"
proof -
  assume nb: "c \<notin> set b"
  have "takeWhile (\<lambda>x. x \<noteq> c) (rev (a @ c # b)) = rev b"
    using nb by (auto simp: takeWhile_tail)
  then show ?thesis by (simp add: rfind_def)
qed

lemma basename_plain: "CHR ''/'' \<notin> set b \<Longrightarrow> basename b = b"
  by (simp add: basename_def rfind_absent)

lemma basename_after_slash: "CHR ''/'' \<notin> set b \<Longrightarrow> basename (a @ CHR ''/'' # b) = b"
  by (simp add: basename_def rfind_after nat_add_distrib)

lemma basename_no_slash: "CHR ''/'' \<notin> set (basename p)"
proof (cases "CHR ''/'' \<in> set p")
  case False
  then show ?thesis by (simp add: basename_plain)
next
  case True
  then obtain a b where p: "p = a @ CHR ''/'' # b" and b: "CHR ''/'' \<notin> set b"
    by (meson split_list_last)
  then show ?thesis by (simp add: basename_after_slash)
qed

lemma splitext_parts: "fst (splitext p) @ snd (splitext p) = p"
  by (simp add: splitext_def Let_def)

lemma splitext_ext: "snd (splitext p) = [] \<or> hd (snd (splitext p)) = CHR ''.''"
proof (cases "CHR ''.'' \<in> set p")
  case False
  then show ?thesis by (simp add: splitext_def Let_def rfind_absent) 
next
  case True
  from rfind_present [OF True] show ?thesis
    by (auto simp: splitext_def Let_def hd_drop_conv_nth)
qed

lemma splitext_no_slash: "CHR ''/'' \<notin> set p \<Longrightarrow> CHR ''/'' \<notin> set (fst (splitext p))"
  by (auto simp: splitext_def Let_def dest: in_set_takeD)


lemma join_inject:
  "startswith b ''/'' = startswith b' ''/'' \<Longrightarrow> join a b = join a b' \<Longrightarrow> b = b'"
  by (auto simp: join_def split: if_splits)

lemma join_longer:
  "\<not> startswith b ''/'' \<Longrightarrow> b \<noteq> [] \<Longrightarrow> join a b \<noteq> a"
  by (auto simp: join_def)

lemma basename_join:
  assumes "CHR ''/'' \<notin> set b"
  shows "basename (join a b) = b"
proof -
  from assms have ns: "\<not> startswith b ''/''"
    by (cases b) (auto simp: startswith_def)
  show ?thesis
  proof (cases "a = [] \<or> last a = CHR ''/''")
    case False
    with ns have "join a b = a @ CHR ''/'' # b" by (simp add: join_def)
    with assms show ?thesis by (simp add: basename_after_slash)
  next
    case True
    show ?thesis
    proof (cases "a = []")
      case True
      with ns assms show ?thesis by (simp add: join_def basename_plain)
    next
      case False
      with True obtain a' where a': "a = a' @ [CHR ''/'']" by (metis append_butlast_last_id)
      with ns have "join a b = a' @ CHR ''/'' # b" by (simp add: join_def)
      with assms show ?thesis by (simp add: basename_after_slash)
    qed
  qed
qed

lemma diagram_path_inject:
  "diagram_path d b m = diagram_path d b n \<Longrightarrow> m = n"
proof -
  assume e: "diagram_path d b m = diagram_path d b n"
  let ?x = "b @ ''-diagram-'' @ str_nat m @ ''.mmd''"
  let ?y = "b @ ''-diagram-'' @ str_nat n @ ''.mmd''"
  have "startswith ?x ''/'' = startswith ?y ''/''"
    by (cases b) (simp_all add: startswith_def)
  then have "?x = ?y" using e unfolding diagram_path_def by (rule join_inject)
  then have "str_nat m = str_nat n" by simp
  then show "m = n" by (rule str_nat_inject)
qed

lemma diagram_path_not_dir:
  assumes "CHR ''/'' \<notin> set b"
  shows "diagram_path d b n \<noteq> d"
proof -
  let ?x = "b @ ''-diagram-'' @ str_nat n @ ''.mmd''"
  from assms have "\<not> startswith ?x ''/''" by (cases b) (auto simp: startswith_def)
  then show ?thesis unfolding diagram_path_def by (intro join_longer) simp_all
qed

lemma diagram_path_not_input:
  "diagram_path d (fst (splitext (basename p))) n \<noteq> p"
proof
  let ?b = "fst (splitext (basename p))"
  let ?e = "snd (splitext (basename p))"
  let ?x = "?b @ ''-diagram-'' @ str_nat n @ ''.mmd''"
  assume e: "diagram_path d ?b n = p"
  have nb: "CHR ''/'' \<notin> set ?b" by (simp add: splitext_no_slash basename_no_slash)
  then have "CHR ''/'' \<notin> set ?x" by (simp add: str_nat_no_slash)
  then have "basename (join d ?x) = ?x" by (rule basename_join)
  with e have "basename p = ?x" by (simp add: diagram_path_def)
  moreover have "basename p = ?b @ ?e" by (simp add: splitext_parts)
  ultimately have "?e = ''-diagram-'' @ str_nat n @ ''.mmd''" by (metis same_append_eq)
  with splitext_ext [of "basename p"] show False by simp
qed

subsection \<open>The loop that writes the files\<close>

lemma save_diagrams_ok:
  assumes "\<forall>k<length ds. nodes w (diagram_path odir base (i + k)) \<noteq> Some Dir"
  shows "\<exists>w'. save_diagrams odir base i ds w =
            (Inr (map (diagram_path odir base) [i..<i + length ds]), w')
       \<and> (\<forall>k<length ds. nodes w' (diagram_path odir base (i + k)) = Some (File (ds ! k)))
       \<and> (\<forall>p. (\<forall>k<length ds. p \<noteq> diagram_path odir base (i + k)) \<longrightarrow> nodes w' p = nodes w p)
       \<and> stdout w' = stdout w @ map (\<lambda>k. extracted_line k (diagram_path odir base k)) [i..<i + length ds]"
  using assms
proof (induction ds arbitrary: i w)
  case Nil
  then show ?case by simp
next
  case (Cons d ds)
  let ?path = "diagram_path odir base"
  let ?w1 = "w\<lparr>nodes := (nodes w)(?path i \<mapsto> File d)\<rparr>"
  let ?line = "\<lambda>k. extracted_line k (?path k)"
  let ?w2 = "print_line (?line i) ?w1"
  from Cons.prems have "nodes w (?path (i + 0)) \<noteq> Some Dir" by blast
  then have wr: "write_text (?path i) d w = Inr ?w1"
    by (auto simp: write_text_def split: option.splits node.splits)
  have n2: "nodes ?w2 = (nodes w)(?path i \<mapsto> File d)"
    and o2: "stdout ?w2 = stdout w @ [?line i]"
    by (simp_all add: print_line_def)
  have other: "?path (Suc i + k) \<noteq> ?path i" for k
    using diagram_path_inject [of odir base "Suc i + k" i] by auto
  have "\<forall>k<length ds. nodes ?w2 (?path (Suc i + k)) \<noteq> Some Dir"
  proof (intro allI impI)
    fix k assume "k < length ds"
    then have "Suc k < length (d # ds)" by simp
    with Cons.prems have "nodes w (?path (i + Suc k)) \<noteq> Some Dir" by blast
    with other [of k] show "nodes ?w2 (?path (Suc i + k)) \<noteq> Some Dir"
      by (simp add: n2)
  qed
  from Cons.IH [OF this] obtain w3 where
    run: "save_diagrams odir base (Suc i) ds ?w2 =
            (Inr (map ?path [Suc i..<Suc i + length ds]), w3)"
    and a: "\<forall>k<length ds. nodes w3 (?path (Suc i + k)) = Some (File (ds ! k))"
    and b: "\<forall>p. (\<forall>k<length ds. p \<noteq> ?path (Suc i + k)) \<longrightarrow> nodes w3 p = nodes ?w2 p"
    and c: "stdout w3 = stdout ?w2 @ map ?line [Suc i..<Suc i + length ds]"
    by blast
  have "[i..<i + Suc (length ds)] = i # [Suc i..<i + Suc (length ds)]"
    by (rule upt_conv_Cons) simp
  then have upt: "[i..<i + length (d # ds)] = i # [Suc i..<Suc i + length ds]"
    by simp
  have r1: "save_diagrams odir base i (d # ds) w =
              (Inr (map ?path [i..<i + length (d # ds)]), w3)"
    unfolding upt by (simp add: Let_def wr run)
  have r2: "\<forall>k<length (d # ds). nodes w3 (?path (i + k)) = Some (File ((d # ds) ! k))"
  proof (intro allI impI)
    fix k assume k: "k < length (d # ds)"
    show "nodes w3 (?path (i + k)) = Some (File ((d # ds) ! k))"
    proof (cases k)
      case 0
      have "nodes w3 (?path i) = nodes ?w2 (?path i)"
        using b other by (metis)
      with 0 show ?thesis by (simp add: n2)
    next
      case (Suc k')
      with k a show ?thesis by simp
    qed
  qed
  have r3: "\<forall>p. (\<forall>k<length (d # ds). p \<noteq> ?path (i + k)) \<longrightarrow> nodes w3 p = nodes w p"
  proof (intro allI impI)
    fix p assume p: "\<forall>k<length (d # ds). p \<noteq> ?path (i + k)"
    then have "p \<noteq> ?path (i + 0)" by blast
    moreover have "\<forall>k<length ds. p \<noteq> ?path (Suc i + k)"
    proof (intro allI impI)
      fix k assume "k < length ds"
      then have "Suc k < length (d # ds)" by simp
      with p have "p \<noteq> ?path (i + Suc k)" by blast
      then show "p \<noteq> ?path (Suc i + k)" by simp
    qed
    ultimately show "nodes w3 p = nodes w p" using b by (simp add: n2)
  qed
  have r4: "stdout w3 = stdout w @ map ?line [i..<i + length (d # ds)]"
    unfolding upt by (simp add: c o2)
  from r1 r2 r3 r4 show ?case by blast
qed

subsection \<open>A run that meets no obstacle\<close>

lemma makedirs_ok:
  assumes "p \<noteq> []" and "\<forall>c. nodes w p \<noteq> Some (File c)"
  shows "\<exists>w1. makedirs p w = Inr w1 \<and> nodes w1 = (nodes w)(p \<mapsto> Dir) \<and> stdout w1 = stdout w"
proof (cases "nodes w p")
  case None
  with assms show ?thesis by (simp add: makedirs_def)
next
  case (Some n)
  with assms have "n = Dir" by (cases n) auto
  with Some have "(nodes w)(p \<mapsto> Dir) = nodes w" by (auto simp: fun_eq_iff)
  with Some \<open>n = Dir\<close> assms show ?thesis by (simp add: makedirs_def)
qed

lemma extract_ok:
  fixes input_file output_dir content w
  defines "ds \<equiv> findall_mermaid content"
    and "path \<equiv> diagram_path output_dir (fst (splitext (basename input_file)))"
  assumes inp: "nodes w input_file = Some (File content)"
    and out1: "output_dir \<noteq> []"
    and out2: "\<forall>c. nodes w output_dir \<noteq> Some (File c)"
    and free: "\<forall>k<length ds. nodes w (path (1 + k)) \<noteq> Some Dir"
  shows "\<exists>w'. extract_mermaid_diagrams input_file output_dir w =
            (Inr (map path [1..<1 + length ds]), w')
       \<and> (\<forall>k<length ds. nodes w' (path (1 + k)) = Some (File (ds ! k)))
       \<and> nodes w' output_dir = Some Dir
       \<and> nodes w' input_file = Some (File content)
       \<and> (\<forall>p. p \<noteq> output_dir \<and> (\<forall>k<length ds. p \<noteq> path (1 + k)) \<longrightarrow> nodes w' p = nodes w p)
       \<and> stdout w' = stdout w @ map (\<lambda>k. extracted_line k (path k)) [1..<1 + length ds]"
proof -
  have noslash: "CHR ''/'' \<notin> set (fst (splitext (basename input_file)))"
    by (simp add: splitext_no_slash basename_no_slash)
  have pd: "path k \<noteq> output_dir" for k
    unfolding path_def using noslash by (rule diagram_path_not_dir)
  have pi: "path k \<noteq> input_file" for k
    unfolding path_def by (rule diagram_path_not_input)
  from inp out2 have io: "input_file \<noteq> output_dir" by auto
  from makedirs_ok [OF out1 out2] obtain w1 where
    mk: "makedirs output_dir w = Inr w1"
    and n1: "nodes w1 = (nodes w)(output_dir \<mapsto> Dir)"
    and o1: "stdout w1 = stdout w" by blast
  from inp io have rd: "read_text input_file w1 = Inr content"
    by (simp add: read_text_def n1)
  have "\<forall>k<length ds. nodes w1 (path (1 + k)) \<noteq> Some Dir"
    using free pd by (simp add: n1)
  then have "\<forall>k<length ds. nodes w1 (diagram_path output_dir
      (fst (splitext (basename input_file))) (1 + k)) \<noteq> Some Dir"
    by (simp add: path_def)
  from save_diagrams_ok [OF this] obtain w' where
    run: "save_diagrams output_dir (fst (splitext (basename input_file))) 1 ds w1 =
            (Inr (map path [1..<1 + length ds]), w')"
    and a: "\<forall>k<length ds. nodes w' (path (1 + k)) = Some (File (ds ! k))"
    and b: "\<forall>p. (\<forall>k<length ds. p \<noteq> path (1 + k)) \<longrightarrow> nodes w' p = nodes w1 p"
    and c: "stdout w' = stdout w1 @ map (\<lambda>k. extracted_line k (path k)) [1..<1 + length ds]"
    unfolding path_def by blast
  have r1: "extract_mermaid_diagrams input_file output_dir w =
              (Inr (map path [1..<1 + length ds]), w')"
    using run by (simp add: extract_mermaid_diagrams_def mk rd Let_def ds_def)
  from b pd have r3: "nodes w' output_dir = Some Dir" by (metis n1 fun_upd_same)
  from b pi have r4: "nodes w' input_file = Some (File content)"
    using inp io by (metis n1 fun_upd_other)
  have r5: "\<forall>p. p \<noteq> output_dir \<and> (\<forall>k<length ds. p \<noteq> path (1 + k)) \<longrightarrow> nodes w' p = nodes w p"
    using b by (simp add: n1)
  from r1 a r3 r4 r5 c o1 show ?thesis by simp
qed

subsection \<open>Any run, and the run after it\<close>

lemma diagram_files_distinct: "distinct (map (diagram_path d b) [i..<j])"
  by (simp add: distinct_map inj_on_def) (metis diagram_path_inject)

lemma write_text_Inr:
  "write_text p c w = Inr w1 \<Longrightarrow>
     nodes w p \<noteq> Some Dir \<and> w1 = w\<lparr>nodes := (nodes w)(p \<mapsto> File c)\<rparr>"
  by (auto simp: write_text_def split: option.splits node.splits)

lemma write_text_Inl:
  "write_text p c w = Inl e \<Longrightarrow> nodes w p = Some Dir"
  by (auto simp: write_text_def split: option.splits node.splits)

lemma save_diagrams_frame:
  "save_diagrams odir base i ds w = (r, w') \<Longrightarrow>
     \<forall>k. p \<noteq> diagram_path odir base (i + k) \<Longrightarrow> nodes w' p = nodes w p"
proof (induction ds arbitrary: i w r w')
  case Nil
  then show ?case by simp
next
  case (Cons d ds)
  let ?path = "diagram_path odir base"
  show ?case
  proof (cases "write_text (?path i) d w")
    case (Inl e)
    with Cons.prems(1) show ?thesis by (simp add: Let_def)
  next
    case (Inr w1)
    let ?w2 = "print_line (extracted_line i (?path i)) w1"
    obtain r2 w3 where run: "save_diagrams odir base (Suc i) ds ?w2 = (r2, w3)"
      by (cases "save_diagrams odir base (Suc i) ds ?w2")
    with Cons.prems(1) Inr have w': "w' = w3"
      by (auto simp: Let_def split: sum.splits)
    have "\<forall>k. p \<noteq> ?path (Suc i + k)"
    proof
      fix k from Cons.prems(2) have "p \<noteq> ?path (i + Suc k)" by blast
      then show "p \<noteq> ?path (Suc i + k)" by simp
    qed
    from Cons.IH [OF run this] have "nodes w3 p = nodes ?w2 p" .
    moreover from Cons.prems(2) have "p \<noteq> ?path (i + 0)" by blast
    ultimately show ?thesis using write_text_Inr [OF Inr] w' by (simp add: print_line_def)
  qed
qed

lemma save_diagrams_again:
  "save_diagrams odir base i ds w = (r, w') \<Longrightarrow>
     \<forall>k. nodes v (diagram_path odir base (i + k)) = nodes w' (diagram_path odir base (i + k)) \<Longrightarrow>
     \<exists>v'. save_diagrams odir base i ds v = (r, v') \<and> nodes v' = nodes v"
proof (induction ds arbitrary: i w r w' v)
  case Nil
  then show ?case by simp
next
  case (Cons d ds)
  let ?path = "diagram_path odir base"
  from Cons.prems(2) have v0: "nodes v (?path i) = nodes w' (?path i)"
    by (metis add.right_neutral)
  show ?case
  proof (cases "write_text (?path i) d w")
    case (Inl e)
    with Cons.prems(1) have r: "r = Inl e" and w': "w' = w" by (simp_all add: Let_def)
    from write_text_Inl [OF Inl] v0 w' have "nodes v (?path i) = Some Dir" by simp
    then have "write_text (?path i) d v = Inl IsADirectoryError"
      by (simp add: write_text_def)
    moreover from Inl have "e = IsADirectoryError"
      by (auto simp: write_text_def split: option.splits node.splits)
    ultimately show ?thesis using r by (simp add: Let_def)
  next
    case (Inr w1)
    let ?w2 = "print_line (extracted_line i (?path i)) w1"
    obtain r2 w3 where run: "save_diagrams odir base (Suc i) ds ?w2 = (r2, w3)"
      by (cases "save_diagrams odir base (Suc i) ds ?w2")
    with Cons.prems(1) Inr have w': "w' = w3"
      and r: "r = (case r2 of Inl e \<Rightarrow> Inl e | Inr files \<Rightarrow> Inr (?path i # files))"
      by (auto simp: Let_def split: sum.splits)
    have "\<forall>k. ?path i \<noteq> ?path (Suc i + k)"
      using diagram_path_inject [of odir base i] by (metis Suc_n_not_le_n le_add1)
    from save_diagrams_frame [OF run this] write_text_Inr [OF Inr]
    have "nodes w3 (?path i) = Some (File d)" by (simp add: print_line_def)
    with v0 w' have vi: "nodes v (?path i) = Some (File d)" by simp
    let ?v1 = "v\<lparr>nodes := (nodes v)(?path i \<mapsto> File d)\<rparr>"
    let ?v2 = "print_line (extracted_line i (?path i)) ?v1"
    from vi have wv: "write_text (?path i) d v = Inr ?v1" by (simp add: write_text_def)
    from vi have n2: "nodes ?v2 = nodes v" by (auto simp: print_line_def fun_eq_iff)
    have "\<forall>k. nodes ?v2 (?path (Suc i + k)) = nodes w3 (?path (Suc i + k))"
    proof
      fix k from Cons.prems(2) have "nodes v (?path (i + Suc k)) = nodes w' (?path (i + Suc k))"
        by blast
      with n2 w' show "nodes ?v2 (?path (Suc i + k)) = nodes w3 (?path (Suc i + k))" by simp
    qed
    from Cons.IH [OF run this] obtain v3 where
      run': "save_diagrams odir base (Suc i) ds ?v2 = (r2, v3)" and n3: "nodes v3 = nodes ?v2"
      by blast
    from wv run' r have "save_diagrams odir base i (d # ds) v = (r, v3)"
      by (simp add: Let_def split: sum.splits)
    with n3 n2 show ?thesis by simp
  qed
qed

lemma save_diagrams_Inr_free:
  "save_diagrams odir base i ds w = (Inr files, w') \<Longrightarrow>
     \<forall>k<length ds. nodes w (diagram_path odir base (i + k)) \<noteq> Some Dir"
proof (induction ds arbitrary: i w files w')
  case Nil
  then show ?case by simp
next
  case (Cons d ds)
  let ?path = "diagram_path odir base"
  from Cons.prems obtain w1 where wr: "write_text (?path i) d w = Inr w1"
    by (cases "write_text (?path i) d w") (simp_all add: Let_def)
  let ?w2 = "print_line (extracted_line i (?path i)) w1"
  from Cons.prems wr obtain fs where run: "save_diagrams odir base (Suc i) ds ?w2 = (Inr fs, w')"
    by (auto simp: Let_def split: sum.splits prod.splits)
  from write_text_Inr [OF wr] have f0: "nodes w (?path i) \<noteq> Some Dir"
    and n2: "nodes ?w2 = (nodes w)(?path i \<mapsto> File d)" by (simp_all add: print_line_def)
  show ?case
  proof (intro allI impI)
    fix k assume k: "k < length (d # ds)"
    show "nodes w (?path (i + k)) \<noteq> Some Dir"
    proof (cases k)
      case 0
      with f0 show ?thesis by simp
    next
      case (Suc k')
      with k have "k' < length ds" by simp
      with Cons.IH [OF run] have "nodes ?w2 (?path (Suc i + k')) \<noteq> Some Dir" by blast
      moreover have "?path (Suc i + k') \<noteq> ?path i"
        using diagram_path_inject [of odir base "Suc i + k'" i] by auto
      ultimately show ?thesis using Suc by (simp add: n2)
    qed
  qed
qed

lemma makedirs_Inr:
  "makedirs p w = Inr w1 \<Longrightarrow>
     p \<noteq> [] \<and> (\<forall>c. nodes w p \<noteq> Some (File c)) \<and> nodes w1 = (nodes w)(p \<mapsto> Dir)
     \<and> stdout w1 = stdout w"
  by (auto simp: makedirs_def fun_eq_iff split: if_splits option.splits node.splits)

lemma makedirs_again: "makedirs p w = Inr w1 \<Longrightarrow> nodes v p = Some Dir \<Longrightarrow> makedirs p v = Inr v"
  by (auto simp: makedirs_def split: if_splits)

lemma extract_again:
  assumes "extract_mermaid_diagrams input_file output_dir w = (r, w1)"
  shows "\<exists>w2. extract_mermaid_diagrams input_file output_dir w1 = (r, w2) \<and> nodes w2 = nodes w1"
proof (cases "makedirs output_dir w")
  case (Inl e)
  with assms show ?thesis by (auto simp: extract_mermaid_diagrams_def)
next
  case (Inr wm)
  let ?base = "fst (splitext (basename input_file))"
  from makedirs_Inr [OF Inr] have nm: "nodes wm = (nodes w)(output_dir \<mapsto> Dir)" by simp
  show ?thesis
  proof (cases "read_text input_file wm")
    case (Inl e)
    with assms Inr have r: "r = Inl e" and w1: "w1 = wm"
      by (simp_all add: extract_mermaid_diagrams_def)
    from nm have "makedirs output_dir wm = Inr wm" using makedirs_again [OF Inr] by simp
    with Inl r w1 show ?thesis by (simp add: extract_mermaid_diagrams_def)
  next
    case rd: (Inr content)
    with assms Inr have run:
      "save_diagrams output_dir ?base 1 (findall_mermaid content) wm = (r, w1)"
      by (simp add: extract_mermaid_diagrams_def Let_def)
    have noslash: "CHR ''/'' \<notin> set ?base"
      by (simp add: splitext_no_slash basename_no_slash)
    have "\<forall>k. output_dir \<noteq> diagram_path output_dir ?base (1 + k)"
      using diagram_path_not_dir [OF noslash] by metis
    from save_diagrams_frame [OF run this] nm have d1: "nodes w1 output_dir = Some Dir"
      by simp
    have "\<forall>k. input_file \<noteq> diagram_path output_dir ?base (1 + k)"
      using diagram_path_not_input by metis
    from save_diagrams_frame [OF run this] have "nodes w1 input_file = nodes wm input_file" .
    with rd have rd1: "read_text input_file w1 = Inr content" by (simp add: read_text_def)
    from d1 have mk1: "makedirs output_dir w1 = Inr w1" using makedirs_again [OF Inr] by simp
    from save_diagrams_again [OF run, of w1] obtain w2 where
      "save_diagrams output_dir ?base 1 (findall_mermaid content) w1 = (r, w2)"
      and "nodes w2 = nodes w1" by blast
    with mk1 rd1 show ?thesis by (simp add: extract_mermaid_diagrams_def Let_def)
  qed
qed

subsection \<open>The scan finds the fenced blocks\<close>

lemma startswith_append: "startswith (p @ s) p"
  by (simp add: startswith_def)

lemma startswith_split: "startswith s p \<Longrightarrow> s = p @ drop (length p) s"
  unfolding startswith_def by (metis append_take_drop_id)

lemma lazy_body_first:
  "lazy_body s = Some (g, r) \<Longrightarrow> s = d' @ fence_close @ r' \<Longrightarrow> length g \<le> length d'"
proof (induction s arbitrary: g r d')
  case Nil
  then show ?case by simp
next
  case (Cons c cs)
  show ?case
  proof (cases "startswith (c # cs) fence_close")
    case True
    with Cons.prems(1) show ?thesis by simp
  next
    case False
    with Cons.prems(1) obtain g' where g': "lazy_body cs = Some (g', r)" and g: "g = c # g'"
      by (auto split: option.splits)
    from False Cons.prems(2) have "d' \<noteq> []"
      using startswith_append [of fence_close r'] by auto
    then obtain d'' where d': "d' = c # d''" and cs: "cs = d'' @ fence_close @ r'"
      using Cons.prems(2) by (cases d') auto
    from Cons.IH [OF g' cs] g d' show ?thesis by simp
  qed
qed

lemma lazy_body_complete:
  "s = d' @ fence_close @ r' \<Longrightarrow> lazy_body s \<noteq> None"
proof (induction d' arbitrary: s)
  case Nil
  then have "startswith s fence_close" by (simp add: startswith_append)
  moreover from Nil obtain c cs where "s = c # cs" by (cases s) (auto simp: fence_close_def)
  ultimately show ?case by simp
next
  case (Cons c d'')
  then have s: "s = c # (d'' @ fence_close @ r')" by simp
  from Cons.IH [of "d'' @ fence_close @ r'"] have "lazy_body (d'' @ fence_close @ r') \<noteq> None"
    by simp
  with s show ?case by (auto split: option.splits)
qed

lemma match_here_None_iff: "match_here s = None \<longleftrightarrow> \<not> starts_block s"
proof
  assume n: "match_here s = None"
  show "\<not> starts_block s"
  proof
    assume "starts_block s"
    then obtain d r where s: "s = fence_open @ d @ fence_close @ r"
      by (auto simp: starts_block_def)
    then have "startswith s fence_open" by (simp add: startswith_append)
    moreover from s have "lazy_body (drop (length fence_open) s) \<noteq> None"
      using lazy_body_complete [of "d @ fence_close @ r" d r] by simp
    ultimately show False using n by (simp add: match_here_def)
  qed
next
  assume n: "\<not> starts_block s"
  show "match_here s = None"
  proof (rule ccontr)
    assume "match_here s \<noteq> None"
    then obtain g r where "match_here s = Some (g, r)" by auto
    then have "s = fence_open @ g @ fence_close @ r" by (rule match_here_shape)
    with n show False by (auto simp: starts_block_def)
  qed
qed

lemma match_here_first:
  assumes "match_here s = Some (d, r)" and "s = fence_open @ d' @ fence_close @ r'"
  shows "length d \<le> length d'"
proof -
  from assms(1) have "lazy_body (drop (length fence_open) s) = Some (d, r)"
    by (auto simp: match_here_def split: if_splits)
  moreover from assms(2) have "drop (length fence_open) s = d' @ fence_close @ r'" by simp
  ultimately show ?thesis by (metis lazy_body_first)
qed

lemma match_here_the:
  assumes s: "s = fence_open @ d @ fence_close @ r"
    and least: "\<forall>d' r'. d @ fence_close @ r = d' @ fence_close @ r' \<longrightarrow> length d \<le> length d'"
  shows "match_here s = Some (d, r)"
proof -
  from s have "starts_block s" by (auto simp: starts_block_def)
  then obtain g r0 where m: "match_here s = Some (g, r0)"
    using match_here_None_iff [of s] by auto
  then have g: "s = fence_open @ g @ fence_close @ r0" by (rule match_here_shape)
  with s have e: "d @ fence_close @ r = g @ fence_close @ r0" by simp
  with least have "length d \<le> length g" by blast
  moreover from m s have "length g \<le> length d" by (rule match_here_first)
  ultimately have "length d = length g" by simp
  with e have "d = g" and "r = r0" by simp_all
  with m show ?thesis by simp
qed

lemma fenced_blocks_Cons:
  assumes "fenced_blocks cs ds" and "\<not> starts_block (c # cs)"
  shows "fenced_blocks (c # cs) ds"
  using assms
proof (cases rule: fenced_blocks.cases)
  case no_block
  have "\<forall>g t. c # cs = g @ t \<longrightarrow> \<not> starts_block t"
  proof (intro allI impI)
    fix g t assume e: "c # cs = g @ t"
    show "\<not> starts_block t"
    proof (cases g)
      case Nil
      with e assms(2) show ?thesis by simp
    next
      case (Cons a g')
      with e have "cs = g' @ t" by simp
      with no_block(2) show ?thesis by blast
    qed
  qed
  with no_block(1) show ?thesis by (simp add: fenced_blocks.no_block)
next
  case (block g d r ds')
  have gap: "\<forall>g1 g2. c # g = g1 @ g2 \<and> g2 \<noteq> [] \<longrightarrow>
      \<not> starts_block (g2 @ fence_open @ d @ fence_close @ r)"
  proof (intro allI impI)
    fix g1 g2 assume e: "c # g = g1 @ g2 \<and> g2 \<noteq> []"
    show "\<not> starts_block (g2 @ fence_open @ d @ fence_close @ r)"
    proof (cases g1)
      case Nil
      with e have "g2 = c # g" by simp
      with assms(2) block(2) show ?thesis by simp
    next
      case (Cons a g1')
      with e have "g = g1' @ g2 \<and> g2 \<noteq> []" by simp
      with block(3) show ?thesis by blast
    qed
  qed
  from block(2) have "c # cs = (c # g) @ fence_open @ d @ fence_close @ r" by simp
  from fenced_blocks.block [OF this gap block(4) block(5)] block(1) show ?thesis by simp
qed

lemma findall_mermaid_blocks: "fenced_blocks s (findall_mermaid s)"
proof (induction s rule: findall_mermaid.induct)
  case (1 s)
  show ?case
  proof (cases "match_here s")
    case (Some m)
    obtain d r where m: "m = (d, r)" by (cases m)
    with Some have mh: "match_here s = Some (d, r)" by simp
    then have fa: "findall_mermaid s = d # findall_mermaid r"
      by (subst findall_mermaid.simps) simp
    from mh have s: "s = [] @ fence_open @ d @ fence_close @ r"
      using match_here_shape by simp
    have least: "\<forall>d' r'. d @ fence_close @ r = d' @ fence_close @ r' \<longrightarrow> length d \<le> length d'"
      using match_here_first [OF mh] s by simp
    have gap: "\<forall>g1 g2. [] = g1 @ g2 \<and> g2 \<noteq> [] \<longrightarrow>
        \<not> starts_block (g2 @ fence_open @ d @ fence_close @ r)" by simp
    from "1.IH"(2) [OF mh refl] have "fenced_blocks r (findall_mermaid r)" .
    from fenced_blocks.block [OF s gap least this] fa show ?thesis by simp
  next
    case None
    show ?thesis
    proof (cases s)
      case Nil
      with None have "findall_mermaid s = []" by (subst findall_mermaid.simps) simp
      moreover from None Nil have "\<forall>g t. s = g @ t \<longrightarrow> \<not> starts_block t"
        by (simp add: match_here_None_iff)
      ultimately show ?thesis by (simp add: fenced_blocks.no_block)
    next
      case (Cons c cs)
      with None have fa: "findall_mermaid s = findall_mermaid cs"
        by (subst findall_mermaid.simps) simp
      from "1.IH"(1) [OF None Cons] have "fenced_blocks cs (findall_mermaid cs)" .
      moreover from None Cons have "\<not> starts_block (c # cs)"
        by (simp add: match_here_None_iff)
      ultimately show ?thesis using fa Cons by (simp add: fenced_blocks_Cons)
    qed
  qed
qed

lemma findall_mermaid_gap:
  assumes "\<forall>g1 g2. g = g1 @ g2 \<and> g2 \<noteq> [] \<longrightarrow> \<not> starts_block (g2 @ t)"
  shows "findall_mermaid (g @ t) = findall_mermaid t"
  using assms
proof (induction g)
  case Nil
  then show ?case by simp
next
  case (Cons c g)
  from Cons.prems have "\<not> starts_block ((c # g) @ t)" by blast
  then have "match_here (c # g @ t) = None" by (simp add: match_here_None_iff)
  then have "findall_mermaid ((c # g) @ t) = findall_mermaid (g @ t)"
    by (subst findall_mermaid.simps) simp
  moreover have "\<forall>g1 g2. g = g1 @ g2 \<and> g2 \<noteq> [] \<longrightarrow> \<not> starts_block (g2 @ t)"
  proof (intro allI impI)
    fix g1 g2 assume "g = g1 @ g2 \<and> g2 \<noteq> []"
    then have "c # g = (c # g1) @ g2 \<and> g2 \<noteq> []" by simp
    with Cons.prems show "\<not> starts_block (g2 @ t)" by blast
  qed
  ultimately show ?case using Cons.IH by simp
qed

lemma findall_mermaid_none:
  assumes "\<forall>g t. s = g @ t \<longrightarrow> \<not> starts_block t"
  shows "findall_mermaid s = []"
proof -
  have "\<forall>g1 g2. s = g1 @ g2 \<and> g2 \<noteq> [] \<longrightarrow> \<not> starts_block (g2 @ [])"
    using assms by simp
  then have "findall_mermaid (s @ []) = findall_mermaid []" by (rule findall_mermaid_gap)
  moreover have "match_here [] = None" by (simp add: match_here_def startswith_def fence_open_def)
  then have "findall_mermaid [] = []" by (subst findall_mermaid.simps) simp
  ultimately show ?thesis by simp
qed

lemma fenced_blocks_unique: "fenced_blocks s ds \<Longrightarrow> findall_mermaid s = ds"
proof (induction rule: fenced_blocks.induct)
  case (no_block s)
  then show ?case by (rule findall_mermaid_none)
next
  case (block s g d r ds)
  let ?t = "fence_open @ d @ fence_close @ r"
  from block(2) have "findall_mermaid (g @ ?t) = findall_mermaid ?t"
    by (rule findall_mermaid_gap)
  moreover from block(3) have "match_here ?t = Some (d, r)"
    by (intro match_here_the) simp_all
  then have "findall_mermaid ?t = d # findall_mermaid r"
    by (subst findall_mermaid.simps) simp
  ultimately show ?case using block(1) block(5) by simp
qed

lemma three_block_run:
  "fst (extract_mermaid_diagrams design_md default_output_dir three_block_world)
     = Inr three_names"
  by code_simp

subsection \<open>What a run extracts\<close>

text \<open>
  Claim C1. Take any document, stored as a regular file, and an output directory that can
  be made (its path is not empty and names no regular file) in which no diagram path is a
  directory. Then the extraction returns normally, and its files correspond one to one to
  the fenced mermaid blocks of the document: the document has exactly one list of blocks,
  the returned paths are as many as the blocks and pairwise different, the file at the
  \<open>k\<close>-th path holds exactly the body of the \<open>k\<close>-th block (the text between the
  opening fence line and the closing fence, nothing added or removed), and no other path
  but the output directory changes.
\<close>

theorem extract_one_file_per_block:
  assumes "nodes w input_file = Some (File content)"
    and "output_dir \<noteq> []"
    and "\<forall>c. nodes w output_dir \<noteq> Some (File c)"
    and "\<forall>k. nodes w (diagram_path output_dir (fst (splitext (basename input_file))) k) \<noteq> Some Dir"
  shows "\<exists>blocks files w'.
           fenced_blocks content blocks
         \<and> (\<forall>bs. fenced_blocks content bs \<longrightarrow> bs = blocks)
         \<and> extract_mermaid_diagrams input_file output_dir w = (Inr files, w')
         \<and> length files = length blocks
         \<and> distinct files
         \<and> (\<forall>k<length blocks. nodes w' (files ! k) = Some (File (blocks ! k)))
         \<and> (\<forall>p. p \<noteq> output_dir \<and> p \<notin> set files \<longrightarrow> nodes w' p = nodes w p)"
proof -
  let ?ds = "findall_mermaid content"
  let ?path = "diagram_path output_dir (fst (splitext (basename input_file)))"
  let ?files = "map ?path [1..<1 + length ?ds]"
  from assms(4) have free: "\<forall>k<length ?ds. nodes w (?path (1 + k)) \<noteq> Some Dir" by blast
  from extract_ok [OF assms(1) assms(2) assms(3) free] obtain w' where
    run: "extract_mermaid_diagrams input_file output_dir w = (Inr ?files, w')"
    and a: "\<forall>k<length ?ds. nodes w' (?path (1 + k)) = Some (File (?ds ! k))"
    and b: "\<forall>p. p \<noteq> output_dir \<and> (\<forall>k<length ?ds. p \<noteq> ?path (1 + k)) \<longrightarrow> nodes w' p = nodes w p"
    by blast
  have nth: "?files ! k = ?path (1 + k)" if "k < length ?ds" for k
    using that by (simp del: upt_Suc)
  have len: "length ?files = length ?ds" by (simp del: upt_Suc)
  have c1: "fenced_blocks content ?ds" by (rule findall_mermaid_blocks)
  have c2: "\<forall>bs. fenced_blocks content bs \<longrightarrow> bs = ?ds"
    using fenced_blocks_unique by blast
  have c5: "distinct ?files" by (rule diagram_files_distinct)
  have c6: "\<forall>k<length ?ds. nodes w' (?files ! k) = Some (File (?ds ! k))"
    using a nth by simp
  have c7: "\<forall>p. p \<noteq> output_dir \<and> p \<notin> set ?files \<longrightarrow> nodes w' p = nodes w p"
  proof (intro allI impI)
    fix p assume p: "p \<noteq> output_dir \<and> p \<notin> set ?files"
    have "\<forall>k<length ?ds. p \<noteq> ?path (1 + k)"
    proof (intro allI impI)
      fix k assume k: "k < length ?ds"
      then have "?files ! k \<in> set ?files" using len by (metis nth_mem)
      with p nth [OF k] show "p \<noteq> ?path (1 + k)" by metis
    qed
    with p b show "nodes w' p = nodes w p" by blast
  qed
  from c1 c2 run len c5 c6 c7 show ?thesis by blast
qed

theorem extract_one_file_per_block_witness:
  "nodes design_world ''design.md''
     = Some (File ''intro\<newline>```mermaid\<newline>graph TD\<newline>```\<newline>'')
   \<and> ''out'' \<noteq> []
   \<and> (\<forall>c. nodes design_world ''out'' \<noteq> Some (File c))
   \<and> (\<forall>k. nodes design_world (diagram_path ''out'' (fst (splitext (basename ''design.md''))) k)
          \<noteq> Some Dir)
   \<and> (\<exists>blocks files w'.
           fenced_blocks ''intro\<newline>```mermaid\<newline>graph TD\<newline>```\<newline>'' blocks
         \<and> extract_mermaid_diagrams ''design.md'' ''out'' design_world = (Inr files, w')
         \<and> length files = length blocks
         \<and> (\<forall>k<length blocks. nodes w' (files ! k) = Some (File (blocks ! k))))"
proof -
  let ?c = "''intro\<newline>```mermaid\<newline>graph TD\<newline>```\<newline>''"
  have h1: "nodes design_world ''design.md'' = Some (File ?c)"
    by (simp add: design_world_def)
  have h2: "''out'' \<noteq> []" by simp
  have h3: "\<forall>c. nodes design_world ''out'' \<noteq> Some (File c)"
    by (simp add: design_world_def)
  have h4: "\<forall>k. nodes design_world
      (diagram_path ''out'' (fst (splitext (basename ''design.md''))) k) \<noteq> Some Dir"
    by (simp add: design_world_def)
  from extract_one_file_per_block [OF h1 h2 h3 h4] h1 h2 h3 h4 show ?thesis by blast
qed

text \<open>
  Claim C6. Extraction is a function of the input path, the output directory and the world,
  and running it again on the world it leaves gives the same result (the same files, or the
  same exception) and the same file system: every file is overwritten with the content it
  already has. When the run returns its files, they are named
  \<open><source-basename>-diagram-<n>.mmd\<close> in the output directory, numbered from 1 in the
  order of the blocks in the document, and the \<open>n\<close>-th file holds the \<open>n\<close>-th block.
\<close>

theorem extract_naming_idempotent:
  assumes "extract_mermaid_diagrams input_file output_dir w = (r, w1)"
  shows "(\<exists>w2. extract_mermaid_diagrams input_file output_dir w1 = (r, w2) \<and> nodes w2 = nodes w1)
       \<and> (\<forall>files. r = Inr files \<longrightarrow>
            (\<exists>content blocks.
                nodes w input_file = Some (File content)
              \<and> fenced_blocks content blocks
              \<and> files = map (\<lambda>n. join output_dir
                    (fst (splitext (basename input_file)) @ ''-diagram-'' @ str_nat n @ ''.mmd''))
                    [1..<1 + length blocks]
              \<and> (\<forall>k<length blocks. nodes w1 (files ! k) = Some (File (blocks ! k)))))"
proof (intro conjI allI impI)
  from assms show "\<exists>w2. extract_mermaid_diagrams input_file output_dir w1 = (r, w2)
      \<and> nodes w2 = nodes w1" by (rule extract_again)
next
  fix files assume r: "r = Inr files"
  let ?base = "fst (splitext (basename input_file))"
  let ?path = "diagram_path output_dir ?base"
  from assms r obtain wm where mk: "makedirs output_dir w = Inr wm"
    by (cases "makedirs output_dir w") (auto simp: extract_mermaid_diagrams_def)
  from assms r mk obtain content where rd: "read_text input_file wm = Inr content"
    by (cases "read_text input_file wm") (auto simp: extract_mermaid_diagrams_def)
  let ?ds = "findall_mermaid content"
  from assms r mk rd have run: "save_diagrams output_dir ?base 1 ?ds wm = (Inr files, w1)"
    by (simp add: extract_mermaid_diagrams_def Let_def)
  from makedirs_Inr [OF mk] have o1: "output_dir \<noteq> []"
    and o2: "\<forall>c. nodes w output_dir \<noteq> Some (File c)"
    and nm: "nodes wm = (nodes w)(output_dir \<mapsto> Dir)" by simp_all
  from rd have "nodes wm input_file = Some (File content)"
    by (auto simp: read_text_def split: option.splits node.splits)
  with nm have inp: "nodes w input_file = Some (File content)"
    by (auto split: if_splits)
  have noslash: "CHR ''/'' \<notin> set ?base"
    by (simp add: splitext_no_slash basename_no_slash)
  have "\<forall>k<length ?ds. nodes w (?path (1 + k)) \<noteq> Some Dir"
  proof (intro allI impI)
    fix k assume "k < length ?ds"
    with save_diagrams_Inr_free [OF run] have "nodes wm (?path (1 + k)) \<noteq> Some Dir" by blast
    moreover have "?path (1 + k) \<noteq> output_dir" using noslash by (rule diagram_path_not_dir)
    ultimately show "nodes w (?path (1 + k)) \<noteq> Some Dir" by (simp add: nm)
  qed
  from extract_ok [OF inp o1 o2 this] assms r
  have files: "files = map ?path [1..<1 + length ?ds]"
    and a: "\<forall>k<length ?ds. nodes w1 (?path (1 + k)) = Some (File (?ds ! k))"
    by auto
  have nth: "files ! k = ?path (1 + k)" if "k < length ?ds" for k
    using that unfolding files by (simp del: upt_Suc)
  have c4: "\<forall>k<length ?ds. nodes w1 (files ! k) = Some (File (?ds ! k))"
    using a nth by simp
  have c3: "files = map (\<lambda>n. join output_dir (?base @ ''-diagram-'' @ str_nat n @ ''.mmd''))
               [1..<1 + length ?ds]"
    unfolding files by (simp add: diagram_path_def del: upt_Suc)
  have c1: "fenced_blocks content ?ds" by (rule findall_mermaid_blocks)
  from inp c1 c3 c4 show "\<exists>content blocks.
                nodes w input_file = Some (File content)
              \<and> fenced_blocks content blocks
              \<and> files = map (\<lambda>n. join output_dir
                    (fst (splitext (basename input_file)) @ ''-diagram-'' @ str_nat n @ ''.mmd''))
                    [1..<1 + length blocks]
              \<and> (\<forall>k<length blocks. nodes w1 (files ! k) = Some (File (blocks ! k)))"
    by blast
qed

theorem extract_naming_idempotent_witness:
  "(\<exists>w2. extract_mermaid_diagrams design_md default_output_dir
            (snd (extract_mermaid_diagrams design_md default_output_dir three_block_world))
          = (Inr three_names, w2)
        \<and> nodes w2
          = nodes (snd (extract_mermaid_diagrams design_md default_output_dir three_block_world)))
   \<and> (\<exists>blocks. fenced_blocks three_blocks blocks \<and> length blocks = 3)"
proof -
  let ?run = "extract_mermaid_diagrams design_md default_output_dir three_block_world"
  have e: "?run = (Inr three_names, snd ?run)"
    using three_block_run by (cases ?run) simp
  have inp: "nodes three_block_world design_md = Some (File three_blocks)"
    by (simp add: three_block_world_def)
  from extract_naming_idempotent [OF e] obtain content blocks where
    again: "\<exists>w2. extract_mermaid_diagrams design_md default_output_dir (snd ?run)
              = (Inr three_names, w2) \<and> nodes w2 = nodes (snd ?run)"
    and c: "nodes three_block_world design_md = Some (File content)"
    and b: "fenced_blocks content blocks"
    and n: "three_names = map (\<lambda>n. join default_output_dir
              (fst (splitext (basename design_md)) @ ''-diagram-'' @ str_nat n @ ''.mmd''))
              [1..<1 + length blocks]"
    by blast
  from c inp have "content = three_blocks" by simp
  with b have fb: "fenced_blocks three_blocks blocks" by simp
  have "length (map (\<lambda>n. join default_output_dir
              (fst (splitext (basename design_md)) @ ''-diagram-'' @ str_nat n @ ''.mmd''))
              [1..<1 + length blocks]) = length blocks"
    by (simp del: upt_Suc)
  with n [symmetric] have "length three_names = length blocks" by simp
  moreover have "length three_names = 3" by (simp add: three_names_def)
  ultimately have "length blocks = 3" by simp
  with fb again show ?thesis by blast
qed

subsection \<open>The command line of the extractor\<close>

text \<open>
  Claim C10. Called with no file argument (\<open>sys.argv\<close> shorter than 2), \<open>main\<close> prints
  the usage line and exits with status 1. The file system is neither read nor changed: the
  world afterwards is the world before with the usage line appended to its output, whatever
  its files are.
\<close>

theorem main_without_argument:
  assumes "length argv < 2"
  shows "main argv w = (Exited 1, w\<lparr>stdout := stdout w @ [usage]\<rparr>)
       \<and> exit_code (fst (main argv w)) = 1"
  using assms by (simp add: main_def print_line_def)

theorem main_without_argument_witness:
  "length [''extract-mermaid-diagrams.py''] < 2
   \<and> main [''extract-mermaid-diagrams.py''] \<lparr>nodes = Map.empty, stdout = []\<rparr>
       = (Exited 1, \<lparr>nodes = Map.empty, stdout = [usage]\<rparr>)"
  using main_without_argument
    [of "[''extract-mermaid-diagrams.py'']" "\<lparr>nodes = Map.empty, stdout = []\<rparr>"]
  by simp

text \<open>
  Claim C7, as the code has it. When the input path does not exist, \<open>main\<close> prints the
  error line and exits with status 1, and the file system is unchanged: no directory is made
  and no file written. When the input path names a regular file, the output directory is not
  the empty path and not a regular file, and none of the diagram paths is a directory,
  the extraction returns its files and \<open>main\<close> exits with status 0 after printing the summary,
  one file per diagram.
\<close>

theorem main_exit_status:
  assumes "2 \<le> length argv"
  shows "(\<not> path_exists (argv ! 1) w \<longrightarrow>
            main argv w = (Exited 1, w\<lparr>stdout := stdout w @ [not_found (argv ! 1)]\<rparr>))
       \<and> (nodes w (argv ! 1) = Some (File content)
            \<and> output_dir_arg argv \<noteq> []
            \<and> (\<forall>c. nodes w (output_dir_arg argv) \<noteq> Some (File c))
            \<and> (\<forall>k<length (findall_mermaid content).
                  nodes w (diagram_path (output_dir_arg argv)
                    (fst (splitext (basename (argv ! 1)))) (1 + k)) \<noteq> Some Dir) \<longrightarrow>
            (\<exists>files w1. extract_mermaid_diagrams (argv ! 1) (output_dir_arg argv) w = (Inr files, w1)
               \<and> main argv w = (Exited 0, w1\<lparr>stdout := stdout w1 @ summary files\<rparr>)
               \<and> length files = length (findall_mermaid content)))"
proof (intro conjI impI)
  assume "\<not> path_exists (argv ! 1) w"
  with assms show "main argv w = (Exited 1, w\<lparr>stdout := stdout w @ [not_found (argv ! 1)]\<rparr>)"
    by (simp add: main_def print_line_def Let_def)
next
  assume h: "nodes w (argv ! 1) = Some (File content)
            \<and> output_dir_arg argv \<noteq> []
            \<and> (\<forall>c. nodes w (output_dir_arg argv) \<noteq> Some (File c))
            \<and> (\<forall>k<length (findall_mermaid content).
                  nodes w (diagram_path (output_dir_arg argv)
                    (fst (splitext (basename (argv ! 1)))) (1 + k)) \<noteq> Some Dir)"
  then have ex: "path_exists (argv ! 1) w" by (simp add: path_exists_def)
  from h have a1: "nodes w (argv ! 1) = Some (File content)"
    and a2: "output_dir_arg argv \<noteq> []"
    and a3: "\<forall>c. nodes w (output_dir_arg argv) \<noteq> Some (File c)"
    and a4: "\<forall>k<length (findall_mermaid content).
                  nodes w (diagram_path (output_dir_arg argv)
                    (fst (splitext (basename (argv ! 1)))) (1 + k)) \<noteq> Some Dir"
    by blast+
  let ?files = "map (diagram_path (output_dir_arg argv) (fst (splitext (basename (argv ! 1)))))
                  [1..<1 + length (findall_mermaid content)]"
  from extract_ok [OF a1 a2 a3 a4] obtain w1 where
    "extract_mermaid_diagrams (argv ! 1) (output_dir_arg argv) w = (Inr ?files, w1)"
    by blast
  moreover have "length ?files = length (findall_mermaid content)" by (simp del: upt_Suc)
  ultimately obtain files where
    run: "extract_mermaid_diagrams (argv ! 1) (output_dir_arg argv) w = (Inr files, w1)"
    and len: "length files = length (findall_mermaid content)"
    by blast
  from assms ex run have "main argv w = (Exited 0, w1\<lparr>stdout := stdout w1 @ summary files\<rparr>)"
    by (simp add: main_def Let_def)
  with run len show "\<exists>files w1. extract_mermaid_diagrams (argv ! 1) (output_dir_arg argv) w = (Inr files, w1)
               \<and> main argv w = (Exited 0, w1\<lparr>stdout := stdout w1 @ summary files\<rparr>)
               \<and> length files = length (findall_mermaid content)"
    by blast
qed

theorem main_exit_status_witness:
  "main [''extract-mermaid-diagrams.py'', ''missing.md''] design_world
     = (Exited 1, design_world\<lparr>stdout := [''Error: File missing.md not found'']\<rparr>)
   \<and> fst (main [''extract-mermaid-diagrams.py'', ''design.md''] design_world) = Exited 0"
proof -
  let ?a1 = "[''extract-mermaid-diagrams.py'', ''missing.md'']"
  let ?a2 = "[''extract-mermaid-diagrams.py'', ''design.md'']"
  let ?c = "''intro\<newline>```mermaid\<newline>graph TD\<newline>```\<newline>''"
  have l1: "2 \<le> length ?a1" and l2: "2 \<le> length ?a2" by simp_all
  have "\<not> path_exists (?a1 ! 1) design_world"
    by (simp add: path_exists_def design_world_def)
  with main_exit_status [OF l1, of design_world ?c]
  have one: "main ?a1 design_world
     = (Exited 1, design_world\<lparr>stdout := [''Error: File missing.md not found'']\<rparr>)"
    by (simp add: not_found_def design_world_def)
  have fa: "findall_mermaid ?c = [''graph TD'']" by code_simp
  have od: "output_dir_arg ?a2 = default_output_dir" by (simp add: output_dir_arg_def)
  have dp: "diagram_path default_output_dir (fst (splitext (basename ''design.md''))) 1
      = ''docs/assets/diagrams/mermaid/design-diagram-1.mmd''" by code_simp
  have "nodes design_world (?a2 ! 1) = Some (File ?c)
            \<and> output_dir_arg ?a2 \<noteq> []
            \<and> (\<forall>c. nodes design_world (output_dir_arg ?a2) \<noteq> Some (File c))
            \<and> (\<forall>k<length (findall_mermaid ?c).
                  nodes design_world (diagram_path (output_dir_arg ?a2)
                    (fst (splitext (basename (?a2 ! 1)))) (1 + k)) \<noteq> Some Dir)"
    unfolding fa od using dp by (simp add: design_world_def default_output_dir_def)
  with main_exit_status [OF l2, of design_world ?c]
  have "fst (main ?a2 design_world) = Exited 0" by auto
  with one show ?thesis by simp
qed

text \<open>
  The claim as written promises status 0 whenever the input file exists. In
  \<open>blocked_world\<close> the input file exists and the output directory names a regular file:
  \<open>makedirs\<close> raises, nothing catches it, and the run ends with a traceback and status 1.
\<close>

theorem main_existing_input_counterexample:
  "path_exists ''design.md'' blocked_world
   \<and> main [''extract-mermaid-diagrams.py'', ''design.md'', ''out''] blocked_world
       = (Traceback FileExistsError, blocked_world)
   \<and> exit_code (Traceback FileExistsError) \<noteq> 0"
  by (simp add: main_def path_exists_def blocked_world_def output_dir_arg_def
      extract_mermaid_diagrams_def makedirs_def)

section \<open>The API-Client: facts and claims\<close>

subsection \<open>What the try blocks can raise\<close>

lemma transport_raises:
  "raises_only_Exception requests \<Longrightarrow> requests req = Inl e \<Longrightarrow> is_Exception e"
  unfolding raises_only_Exception_def by (erule allE [of _ req]) simp

lemma json_raises:
  "raises_only_Exception requests \<Longrightarrow> requests req = Inr response \<Longrightarrow>
     json_body response = Inl e \<Longrightarrow> is_Exception e"
  unfolding raises_only_Exception_def by (erule allE [of _ req]) simp

lemma dict_get_raises: "dict_get x k d = Inl e \<Longrightarrow> is_Exception e"
  by (cases x) auto

lemma getitem_key_raises: "getitem_key x k = Inl e \<Longrightarrow> is_Exception e"
  by (cases x) (auto split: option.splits)

lemma py_iter_raises: "py_iter x = Inl e \<Longrightarrow> is_Exception e"
  by (cases x) auto

lemma collection_names_raises: "collection_names cols = Inl e \<Longrightarrow> is_Exception e"
  by (induction cols arbitrary: e) (auto split: sum.splits dest: getitem_key_raises)

lemma health_check_try_raises:
  "raises_only_Exception requests \<Longrightarrow> health_check_try requests u = Inl e \<Longrightarrow> is_Exception e"
  by (auto simp: health_check_try_def split: sum.splits if_splits
      dest: transport_raises json_raises dict_get_raises)

lemma list_collections_try_raises:
  "raises_only_Exception requests \<Longrightarrow> list_collections_try requests u = Inl e \<Longrightarrow> is_Exception e"
  by (auto simp: list_collections_try_def split: sum.splits if_splits
      dest: transport_raises json_raises dict_get_raises py_iter_raises collection_names_raises)

lemma search_points_try_raises:
  "raises_only_Exception requests \<Longrightarrow> search_points_try requests u c q l s = Inl e \<Longrightarrow>
     is_Exception e"
  by (auto simp: search_points_try_def split: sum.splits if_splits
      dest: transport_raises json_raises dict_get_raises)

lemma except_Exception_returns:
  "(\<And>e. body = Inl e \<Longrightarrow> is_Exception e) \<Longrightarrow> \<exists>v. except_Exception body h = Inr v"
  by (cases body) (auto simp: except_Exception_def)

lemma except_Exception_caught:
  "body = Inl e \<Longrightarrow> is_Exception e \<Longrightarrow> except_Exception body h = Inr h"
  by (simp add: except_Exception_def)

subsection \<open>Every operation returns\<close>

lemma health_check_returns:
  "raises_only_Exception requests \<Longrightarrow> \<exists>b. health_check requests u = Inr b"
  unfolding health_check_def
  by (rule except_Exception_returns) (rule health_check_try_raises)

lemma list_collections_returns:
  "raises_only_Exception requests \<Longrightarrow> \<exists>ns. list_collections requests u = Inr ns"
proof -
  assume r: "raises_only_Exception requests"
  have "\<exists>v. except_Exception (list_collections_try requests u) None = Inr v"
    by (rule except_Exception_returns) (rule list_collections_try_raises [OF r])
  then show ?thesis by (auto simp: list_collections_def split: option.splits)
qed

lemma search_points_returns:
  "raises_only_Exception requests \<Longrightarrow> \<exists>r. search_points requests u c q l s = Inr r"
proof -
  assume r: "raises_only_Exception requests"
  have "\<exists>v. except_Exception (search_points_try requests u c q l s) None = Inr v"
    by (rule except_Exception_returns) (rule search_points_try_raises [OF r])
  then show ?thesis by (auto simp: search_points_def split: option.splits)
qed

lemma create_collection_returns:
  "raises_only_Exception requests \<Longrightarrow> \<exists>b. create_collection requests u c n = Inr b"
  unfolding create_collection_def
  by (rule except_Exception_returns) (auto split: sum.splits dest: transport_raises)

lemma upsert_points_returns:
  "raises_only_Exception requests \<Longrightarrow> \<exists>b. upsert_points requests u c ps = Inr b"
  unfolding upsert_points_def
  by (rule except_Exception_returns) (auto split: sum.splits dest: transport_raises)

lemma health_check_transport_failure:
  "raises_only_Exception requests \<Longrightarrow> requests (health_request u) = Inl e \<Longrightarrow>
     health_check requests u = Inr False"
  by (frule (1) transport_raises) (simp add: health_check_def health_check_try_def except_Exception_def)

lemma create_collection_transport_failure:
  "raises_only_Exception requests \<Longrightarrow> requests (create_collection_request u c n) = Inl e \<Longrightarrow>
     create_collection requests u c n = Inr False"
  by (frule (1) transport_raises) (simp add: create_collection_def except_Exception_def)

lemma list_collections_transport_failure:
  "raises_only_Exception requests \<Longrightarrow> requests (list_request u) = Inl e \<Longrightarrow>
     list_collections requests u = Inr []"
  by (frule (1) transport_raises)
    (simp add: list_collections_def list_collections_try_def except_Exception_def)

lemma upsert_points_transport_failure:
  "raises_only_Exception requests \<Longrightarrow> requests (upsert_request u c ps) = Inl e \<Longrightarrow>
     upsert_points requests u c ps = Inr False"
  by (frule (1) transport_raises) (simp add: upsert_points_def except_Exception_def)

lemma search_points_transport_failure:
  "raises_only_Exception requests \<Longrightarrow> requests (search_request u c q l s) = Inl e \<Longrightarrow>
     search_points requests u c q l s = Inr (JArr [])"
  by (frule (1) transport_raises)
    (simp add: search_points_def search_points_try_def except_Exception_def)

lemma health_check_parse_failure:
  "raises_only_Exception requests \<Longrightarrow> requests (health_request u) = Inr response \<Longrightarrow>
     json_body response = Inl e \<Longrightarrow> health_check requests u = Inr False"
  by (frule (2) json_raises) (simp add: health_check_def health_check_try_def except_Exception_def)

lemma list_collections_parse_failure:
  "raises_only_Exception requests \<Longrightarrow> requests (list_request u) = Inr response \<Longrightarrow>
     json_body response = Inl e \<Longrightarrow> list_collections requests u = Inr []"
  by (frule (2) json_raises)
    (simp add: list_collections_def list_collections_try_def except_Exception_def)

lemma search_points_parse_failure:
  "raises_only_Exception requests \<Longrightarrow> requests (search_request u c q l s) = Inr response \<Longrightarrow>
     json_body response = Inl e \<Longrightarrow> search_points requests u c q l s = Inr (JArr [])"
  by (frule (2) json_raises)
    (simp add: search_points_def search_points_try_def except_Exception_def)

subsection \<open>The example services\<close>

lemma unreachable_raises: "raises_only_Exception unreachable"
  by (simp add: raises_only_Exception_def unreachable_def)

lemma answers_raises:
  "raises_only_Exception (answers code body) \<longleftrightarrow> (\<forall>e. body = Inl e \<longrightarrow> is_Exception e)"
  by (auto simp: raises_only_Exception_def answers_def split: sum.splits)

subsection \<open>The claims about the client\<close>

text \<open>
  Claim C2. Let the transport raise only exceptions of class \<open>Exception\<close>. Then each of
  \<open>health_check\<close>, \<open>create_collection\<close>, \<open>list_collections\<close>, \<open>upsert_points\<close> and
  \<open>search_points\<close> returns a value (no exception leaves the method), and it returns its
  sentinel (\<open>False\<close>, or the empty list) whenever the request raises and whenever
  \<open>response.json()\<close> raises.
\<close>

theorem client_operations_never_raise:
  assumes "raises_only_Exception requests"
  shows "(\<exists>b. health_check requests u = Inr b)
       \<and> (\<exists>b. create_collection requests u c n = Inr b)
       \<and> (\<exists>ns. list_collections requests u = Inr ns)
       \<and> (\<exists>b. upsert_points requests u c ps = Inr b)
       \<and> (\<exists>r. search_points requests u c q l s = Inr r)
       \<and> (\<forall>e. requests (health_request u) = Inl e \<longrightarrow> health_check requests u = Inr False)
       \<and> (\<forall>e. requests (create_collection_request u c n) = Inl e \<longrightarrow>
             create_collection requests u c n = Inr False)
       \<and> (\<forall>e. requests (list_request u) = Inl e \<longrightarrow> list_collections requests u = Inr [])
       \<and> (\<forall>e. requests (upsert_request u c ps) = Inl e \<longrightarrow>
             upsert_points requests u c ps = Inr False)
       \<and> (\<forall>e. requests (search_request u c q l s) = Inl e \<longrightarrow>
             search_points requests u c q l s = Inr (JArr []))
       \<and> (\<forall>response e. requests (health_request u) = Inr response \<and> json_body response = Inl e \<longrightarrow>
             health_check requests u = Inr False)
       \<and> (\<forall>response e. requests (list_request u) = Inr response \<and> json_body response = Inl e \<longrightarrow>
             list_collections requests u = Inr [])
       \<and> (\<forall>response e. requests (search_request u c q l s) = Inr response
             \<and> json_body response = Inl e \<longrightarrow>
             search_points requests u c q l s = Inr (JArr []))"
proof (intro conjI allI impI)
  show "\<exists>b. health_check requests u = Inr b" using assms by (rule health_check_returns)
  show "\<exists>b. create_collection requests u c n = Inr b" using assms by (rule create_collection_returns)
  show "\<exists>ns. list_collections requests u = Inr ns" using assms by (rule list_collections_returns)
  show "\<exists>b. upsert_points requests u c ps = Inr b" using assms by (rule upsert_points_returns)
  show "\<exists>r. search_points requests u c q l s = Inr r" using assms by (rule search_points_returns)
next
  fix e assume "requests (health_request u) = Inl e"
  with assms show "health_check requests u = Inr False" by (rule health_check_transport_failure)
next
  fix e assume "requests (create_collection_request u c n) = Inl e"
  with assms show "create_collection requests u c n = Inr False"
    by (rule create_collection_transport_failure)
next
  fix e assume "requests (list_request u) = Inl e"
  with assms show "list_collections requests u = Inr []" by (rule list_collections_transport_failure)
next
  fix e assume "requests (upsert_request u c ps) = Inl e"
  with assms show "upsert_points requests u c ps = Inr False"
    by (rule upsert_points_transport_failure)
next
  fix e assume "requests (search_request u c q l s) = Inl e"
  with assms show "search_points requests u c q l s = Inr (JArr [])"
    by (rule search_points_transport_failure)
next
  fix response e
  assume "requests (health_request u) = Inr response \<and> json_body response = Inl e"
  with assms show "health_check requests u = Inr False"
    by (blast intro: health_check_parse_failure)
next
  fix response e
  assume "requests (list_request u) = Inr response \<and> json_body response = Inl e"
  with assms show "list_collections requests u = Inr []"
    by (blast intro: list_collections_parse_failure)
next
  fix response e
  assume "requests (search_request u c q l s) = Inr response \<and> json_body response = Inl e"
  with assms show "search_points requests u c q l s = Inr (JArr [])"
    by (blast intro: search_points_parse_failure)
qed

theorem client_operations_never_raise_witness:
  "raises_only_Exception unreachable
   \<and> health_check unreachable QDRANT_URL = Inr False
   \<and> create_collection unreachable QDRANT_URL ''docs'' 4 = Inr False
   \<and> list_collections unreachable QDRANT_URL = Inr []
   \<and> upsert_points unreachable QDRANT_URL ''docs'' [] = Inr False
   \<and> search_points unreachable QDRANT_URL ''docs'' [] 5 (1 / 2) = Inr (JArr [])
   \<and> raises_only_Exception (answers 200 (Inl JSONDecodeError))
   \<and> health_check (answers 200 (Inl JSONDecodeError)) QDRANT_URL = Inr False
   \<and> list_collections (answers 200 (Inl JSONDecodeError)) QDRANT_URL = Inr []
   \<and> search_points (answers 200 (Inl JSONDecodeError)) QDRANT_URL ''docs'' [] 5 (1 / 2)
       = Inr (JArr [])"
proof -
  have g: "raises_only_Exception (answers 200 (Inl JSONDecodeError))"
    by (simp add: answers_raises)
  from client_operations_never_raise
    [OF unreachable_raises, of QDRANT_URL "''docs''" 4 "[]" "[]" 5 "1 / 2"]
  have a: "health_check unreachable QDRANT_URL = Inr False
   \<and> create_collection unreachable QDRANT_URL ''docs'' 4 = Inr False
   \<and> list_collections unreachable QDRANT_URL = Inr []
   \<and> upsert_points unreachable QDRANT_URL ''docs'' [] = Inr False
   \<and> search_points unreachable QDRANT_URL ''docs'' [] 5 (1 / 2) = Inr (JArr [])"
    by (simp add: unreachable_def)
  from client_operations_never_raise [OF g, of QDRANT_URL "''docs''" 4 "[]" "[]" 5 "1 / 2"]
  have b: "health_check (answers 200 (Inl JSONDecodeError)) QDRANT_URL = Inr False
   \<and> list_collections (answers 200 (Inl JSONDecodeError)) QDRANT_URL = Inr []
   \<and> search_points (answers 200 (Inl JSONDecodeError)) QDRANT_URL ''docs'' [] 5 (1 / 2)
       = Inr (JArr [])"
    by (simp add: answers_def)
  from unreachable_raises g a b show ?thesis by simp
qed

text \<open>
  Claim C8. \<open>health_check\<close> returns \<open>True\<close> exactly when the request returns a response
  with status code 200 whose body decodes to a dict with \<open>"status"\<close> equal to \<open>"ok"\<close>.
  A response with status 200 and any other body (one that does not decode, is no dict, or
  has another status value) gives \<open>False\<close>.
\<close>

theorem health_check_true_iff:
  "(health_check requests u = Inr True \<longleftrightarrow>
      (\<exists>response kvs. requests (health_request u) = Inr response
         \<and> status_code response = 200
         \<and> json_body response = Inr (JObj kvs)
         \<and> map_of kvs ''status'' = Some (JStr ''ok'')))
   \<and> (raises_only_Exception requests
        \<and> requests (health_request u) = Inr response
        \<and> status_code response = 200
        \<and> \<not> (\<exists>kvs. json_body response = Inr (JObj kvs)
                  \<and> map_of kvs ''status'' = Some (JStr ''ok'')) \<longrightarrow>
      health_check requests u = Inr False)"
proof (intro conjI impI iffI)
  assume t: "health_check requests u = Inr True"
  then have "health_check_try requests u = Inr True"
    by (auto simp: health_check_def except_Exception_def split: sum.splits if_splits)
  then obtain response body status where
    r: "requests (health_request u) = Inr response" and s: "status_code response = 200"
    and b: "json_body response = Inr body" and g: "dict_get body ''status'' JNull = Inr status"
    and ok: "status = JStr ''ok''"
    by (auto simp: health_check_try_def split: sum.splits if_splits)
  from g obtain kvs where body: "body = JObj kvs" by (cases body) auto
  with g ok have "map_of kvs ''status'' = Some (JStr ''ok'')"
    by (auto split: option.splits)
  with r s b body show "\<exists>response kvs. requests (health_request u) = Inr response
         \<and> status_code response = 200
         \<and> json_body response = Inr (JObj kvs)
         \<and> map_of kvs ''status'' = Some (JStr ''ok'')" by blast
next
  assume "\<exists>response kvs. requests (health_request u) = Inr response
         \<and> status_code response = 200
         \<and> json_body response = Inr (JObj kvs)
         \<and> map_of kvs ''status'' = Some (JStr ''ok'')"
  then show "health_check requests u = Inr True"
    by (auto simp: health_check_def health_check_try_def except_Exception_def)
next
  assume h: "raises_only_Exception requests
        \<and> requests (health_request u) = Inr response
        \<and> status_code response = 200
        \<and> \<not> (\<exists>kvs. json_body response = Inr (JObj kvs)
                  \<and> map_of kvs ''status'' = Some (JStr ''ok''))"
  then obtain b where b: "health_check requests u = Inr b"
    using health_check_returns by blast
  have "\<not> b"
  proof
    assume b
    with b have "health_check requests u = Inr True" by simp
    then have "health_check_try requests u = Inr True"
      by (auto simp: health_check_def except_Exception_def split: sum.splits if_splits)
    with h obtain body where jb: "json_body response = Inr body"
      and g: "dict_get body ''status'' JNull = Inr (JStr ''ok'')"
      by (auto simp: health_check_try_def split: sum.splits if_splits)
    from g obtain kvs where body: "body = JObj kvs" by (cases body) auto
    with g have "map_of kvs ''status'' = Some (JStr ''ok'')" by (auto split: option.splits)
    with h jb body show False by blast
  qed
  with b show "health_check requests u = Inr False" by simp
qed

theorem health_check_true_iff_witness:
  "health_check (answers 200 (Inr (JObj [(''status'', JStr ''ok'')]))) QDRANT_URL = Inr True
   \<and> health_check (answers 200 (Inr (JObj [(''status'', JStr ''red'')]))) QDRANT_URL = Inr False
   \<and> health_check (answers 200 (Inl JSONDecodeError)) QDRANT_URL = Inr False
   \<and> health_check (answers 503 (Inr (JObj [(''status'', JStr ''ok'')]))) QDRANT_URL \<noteq> Inr True"
proof -
  let ?ok = "answers 200 (Inr (JObj [(''status'', JStr ''ok'')]))"
  let ?red = "answers 200 (Inr (JObj [(''status'', JStr ''red'')]))"
  let ?bad = "answers 200 (Inl JSONDecodeError)"
  let ?down = "answers 503 (Inr (JObj [(''status'', JStr ''ok'')]))"
  have 1: "health_check ?ok QDRANT_URL = Inr True"
    using health_check_true_iff [of ?ok QDRANT_URL] by (simp add: answers_def)
  have 2: "health_check ?red QDRANT_URL = Inr False"
    using health_check_true_iff
      [of ?red QDRANT_URL "\<lparr>status_code = 200, json_body = Inr (JObj [(''status'', JStr ''red'')])\<rparr>"]
    by (simp add: answers_raises) (simp add: answers_def)
  have 3: "health_check ?bad QDRANT_URL = Inr False"
    using health_check_true_iff
      [of ?bad QDRANT_URL "\<lparr>status_code = 200, json_body = Inl JSONDecodeError\<rparr>"]
    by (simp add: answers_raises) (simp add: answers_def)
  have 4: "health_check ?down QDRANT_URL \<noteq> Inr True"
    using health_check_true_iff [of ?down QDRANT_URL] by (simp add: answers_def)
  from 1 2 3 4 show ?thesis by simp
qed

text \<open>
  Claim C5, as the code has it. \<open>create_collection\<close> takes the collection name and the
  vector size (default 1536); the distance is not a parameter: the request is a \<open>PUT\<close> to
  \<open>/collections/<name>\<close> whose body always asks for the distance \<open>"Cosine"\<close>. It returns
  \<open>True\<close> exactly when the service answers with status 200 or 201 and \<open>False\<close> in every
  other case: a raised exception, a conflict because the collection exists already, or any
  other status are not told apart.
\<close>

theorem create_collection_result:
  assumes "\<forall>e. requests (create_collection_request u c n) = Inl e \<longrightarrow> is_Exception e"
  shows "create_collection requests u c n =
           Inr (\<exists>response. requests (create_collection_request u c n) = Inr response
                  \<and> status_code response \<in> {200, 201})
       \<and> create_collection_request u c n =
           \<lparr>http_method = PUT, request_url = u @ ''/collections/'' @ c,
            request_json = Some (JObj [(''vectors'',
              JObj [(''size'', JInt n), (''distance'', JStr ''Cosine'')])])\<rparr>"
proof
  show "create_collection requests u c n =
           Inr (\<exists>response. requests (create_collection_request u c n) = Inr response
                  \<and> status_code response \<in> {200, 201})"
  proof (cases "requests (create_collection_request u c n)")
    case (Inl e)
    with assms have "is_Exception e" by blast
    with Inl show ?thesis by (simp add: create_collection_def except_Exception_def)
  next
    case (Inr response)
    then show ?thesis by (simp add: create_collection_def except_Exception_def)
  qed
  show "create_collection_request u c n =
           \<lparr>http_method = PUT, request_url = u @ ''/collections/'' @ c,
            request_json = Some (JObj [(''vectors'',
              JObj [(''size'', JInt n), (''distance'', JStr ''Cosine'')])])\<rparr>"
    by (simp add: create_collection_request_def collection_config_def)
qed

theorem create_collection_result_witness:
  "create_collection (answers 200 (Inr JNull)) QDRANT_URL ''docs'' default_vector_size = Inr True
   \<and> create_collection (answers 409 (Inr JNull)) QDRANT_URL ''docs'' default_vector_size = Inr False
   \<and> create_collection (answers 500 (Inr JNull)) QDRANT_URL ''docs'' default_vector_size = Inr False
   \<and> create_collection unreachable QDRANT_URL ''docs'' default_vector_size = Inr False"
proof -
  have 1: "create_collection (answers 200 (Inr JNull)) QDRANT_URL ''docs'' default_vector_size
      = Inr True"
    using create_collection_result
      [of "answers 200 (Inr JNull)" QDRANT_URL "''docs''" default_vector_size]
    by (simp add: answers_def)
  have 2: "create_collection (answers 409 (Inr JNull)) QDRANT_URL ''docs'' default_vector_size
      = Inr False"
    using create_collection_result
      [of "answers 409 (Inr JNull)" QDRANT_URL "''docs''" default_vector_size]
    by (simp add: answers_def)
  have 3: "create_collection (answers 500 (Inr JNull)) QDRANT_URL ''docs'' default_vector_size
      = Inr False"
    using create_collection_result
      [of "answers 500 (Inr JNull)" QDRANT_URL "''docs''" default_vector_size]
    by (simp add: answers_def)
  have 4: "create_collection unreachable QDRANT_URL ''docs'' default_vector_size = Inr False"
    using create_collection_result [of unreachable QDRANT_URL "''docs''" default_vector_size]
    by (simp add: unreachable_def)
  from 1 2 3 4 show ?thesis by simp
qed

text \<open>
  The claim as written gives the operation a third parameter, \<open>distance\<close> with default
  \<open>"cosine"\<close>. The body the code sends is not the one that signature describes, for the
  default as for any other distance a caller might ask for.
\<close>

theorem create_collection_distance_counterexample:
  "request_json (create_collection_request QDRANT_URL ''docs'' 4) = Some (collection_config 4)
   \<and> collection_config 4 \<noteq> collection_config_spec 4 ''cosine''
   \<and> collection_config 4 \<noteq> collection_config_spec 4 ''euclidean''"
  by (simp add: create_collection_request_def collection_config_def collection_config_spec_def)

section \<open>The RPC-Probe: facts and claims\<close>

subsection \<open>The read loop\<close>

lemma read_response_eof:
  "shd (out p) = Some [] \<Longrightarrow> read_response loads p = Some (JNull, p\<lparr>out := stl (out p)\<rparr>)"
  by (subst read_response.simps) simp

lemma read_response_skip:
  "shd (out p) = Some line \<Longrightarrow> discarded loads line \<Longrightarrow>
     read_response loads p = read_response loads (p\<lparr>out := stl (out p)\<rparr>)"
  by (subst read_response.simps) (auto simp: discarded_def)

lemma read_response_take:
  "shd (out p) = Some line \<Longrightarrow> strip line \<noteq> [] \<Longrightarrow> \<not> startswith (strip line) ''time='' \<Longrightarrow>
     loads (strip line) = Some r \<Longrightarrow>
     read_response loads p = Some (r, p\<lparr>out := stl (out p)\<rparr>)"
  by (subst read_response.simps) (auto simp: strip_def)

lemma read_response_skips:
  assumes "\<forall>m<n. \<exists>l. out p !! m = Some l \<and> discarded loads l"
  shows "read_response loads p = read_response loads (p\<lparr>out := sdrop n (out p)\<rparr>)"
  using assms
proof (induction n arbitrary: p)
  case 0
  then show ?case by simp
next
  case (Suc n)
  from Suc.prems obtain l where l: "shd (out p) = Some l" and s: "discarded loads l"
    by (metis snth.simps(1) zero_less_Suc)
  let ?p = "p\<lparr>out := stl (out p)\<rparr>"
  have "\<forall>m<n. \<exists>l. out ?p !! m = Some l \<and> discarded loads l"
  proof (intro allI impI)
    fix m assume "m < n"
    then have "Suc m < Suc n" by simp
    with Suc.prems obtain l where "out p !! Suc m = Some l \<and> discarded loads l" by blast
    then show "\<exists>l. out ?p !! m = Some l \<and> discarded loads l" by simp
  qed
  from Suc.IH [OF this] read_response_skip [OF l s] show ?case by simp
qed


lemma read_response_reaches_end:
  assumes "out p !! n = Some []" and "\<forall>m<n. \<exists>l. out p !! m = Some l"
  shows "\<exists>r p'. read_response loads p = Some (r, p')"
  using assms
proof (induction n arbitrary: p)
  case 0
  then have "shd (out p) = Some []" by simp
  then show ?case by (simp add: read_response_eof)
next
  case (Suc n)
  from Suc.prems(2) obtain l where l: "shd (out p) = Some l"
    by (metis snth.simps(1) zero_less_Suc)
  let ?p = "p\<lparr>out := stl (out p)\<rparr>"
  from Suc.prems(1) have e: "out ?p !! n = Some []" by simp
  have a: "\<forall>m<n. \<exists>l. out ?p !! m = Some l"
  proof (intro allI impI)
    fix m assume "m < n"
    then have "Suc m < Suc n" by simp
    with Suc.prems(2) obtain l where "out p !! Suc m = Some l" by blast
    then show "\<exists>l. out ?p !! m = Some l" by simp
  qed
  show ?case
  proof (cases "l = []")
    case True
    with l show ?thesis by (simp add: read_response_eof)
  next
    case False
    show ?thesis
    proof (cases "discarded loads l")
      case True
      from read_response_skip [OF l True] Suc.IH [OF e a] show ?thesis by simp
    next
      case no: False
      with False obtain r where "strip l \<noteq> []" and "\<not> startswith (strip l) ''time=''"
        and "loads (strip l) = Some r" by (auto simp: discarded_def)
      with l show ?thesis by (simp add: read_response_take)
    qed
  qed
qed

lemma read_response_nothing:
  assumes "out p !! n = Some []"
    and "\<forall>m<n. \<exists>l. out p !! m = Some l \<and> (l = [] \<or> discarded loads l)"
  shows "\<exists>p'. read_response loads p = Some (JNull, p')"
  using assms
proof (induction n arbitrary: p)
  case 0
  then have "shd (out p) = Some []" by simp
  then show ?case by (simp add: read_response_eof)
next
  case (Suc n)
  from Suc.prems(2) obtain l where l: "shd (out p) = Some l" and d: "l = [] \<or> discarded loads l"
    by (metis snth.simps(1) zero_less_Suc)
  let ?p = "p\<lparr>out := stl (out p)\<rparr>"
  from Suc.prems(1) have e: "out ?p !! n = Some []" by simp
  have a: "\<forall>m<n. \<exists>l. out ?p !! m = Some l \<and> (l = [] \<or> discarded loads l)"
  proof (intro allI impI)
    fix m assume "m < n"
    then have "Suc m < Suc n" by simp
    with Suc.prems(2) obtain l where "out p !! Suc m = Some l \<and> (l = [] \<or> discarded loads l)"
      by blast
    then show "\<exists>l. out ?p !! m = Some l \<and> (l = [] \<or> discarded loads l)" by simp
  qed
  show ?case
  proof (cases "l = []")
    case True
    with l show ?thesis by (simp add: read_response_eof)
  next
    case False
    with d have "discarded loads l" by simp
    from read_response_skip [OF l this] Suc.IH [OF e a] show ?thesis by simp
  qed
qed

lemma read_response_keeps:
  assumes ret: "read_response loads p = Some (r, p')"
  shows "sent p' = sent p \<and> writable p' = writable p \<and> stops_in_time p' = stops_in_time p
       \<and> terminate_called p' = terminate_called p \<and> kill_called p' = kill_called p"
proof -
  let ?P = "\<lambda>(ld :: string \<Rightarrow> json option) p rp. sent (snd rp) = sent p \<and> writable (snd rp) = writable p
       \<and> stops_in_time (snd rp) = stops_in_time p
       \<and> terminate_called (snd rp) = terminate_called p \<and> kill_called (snd rp) = kill_called p"
  have "?P loads p (r, p')"
  proof (rule read_response.raw_induct [where P = ?P, OF _ ret])
    fix f and ld :: "string \<Rightarrow> json option" and q :: process and rq
    assume IH: "\<And>ld q rq. f ld q = Some rq \<Longrightarrow> ?P ld q rq"
      and eq: "(case shd (out q) of
        None \<Rightarrow> None
      | Some line \<Rightarrow>
          if line = [] then Some (JNull, q\<lparr>out := stl (out q)\<rparr>)
          else if strip line = [] then f ld (q\<lparr>out := stl (out q)\<rparr>)
          else if startswith (strip line) ''time=''
            then f ld (q\<lparr>out := stl (out q)\<rparr>)
          else (case ld (strip line) of
                  Some response \<Rightarrow> Some (response, q\<lparr>out := stl (out q)\<rparr>)
                | None \<Rightarrow> f ld (q\<lparr>out := stl (out q)\<rparr>))) = Some rq"
    from eq obtain line where line: "shd (out q) = Some line" by (auto split: option.splits)
    let ?q = "q\<lparr>out := stl (out q)\<rparr>"
    from eq line have "rq = (JNull, ?q) \<or> (\<exists>resp. rq = (resp, ?q)) \<or> f ld ?q = Some rq"
      by (auto split: option.splits if_splits)
    then show "?P ld q rq"
    proof (elim disjE exE)
      assume "rq = (JNull, ?q)" then show ?thesis by simp
    next
      fix resp assume "rq = (resp, ?q)" then show ?thesis by simp
    next
      assume "f ld ?q = Some rq"
      from IH [OF this] show ?thesis by simp
    qed
  qed
  then show ?thesis by simp
qed

lemma send_mcp_request_sent:
  assumes "send_mcp_request loads p request = Some (r, p')"
  shows "(sent p' = sent p \<or> sent p' = sent p @ [request])
       \<and> stops_in_time p' = stops_in_time p"
proof (cases "shd (writable p)")
  case True
  with assms have "read_response loads
      (p\<lparr>writable := stl (writable p), sent := sent p @ [request]\<rparr>) = Some (r, p')"
    by (simp add: send_mcp_request_def)
  from read_response_keeps [OF this] show ?thesis by simp
next
  case False
  with assms show ?thesis by (auto simp: send_mcp_request_def)
qed

lemma has_result_without_field:
  assumes "\<not> (\<exists>kvs v. response = JObj kvs \<and> map_of kvs ''result'' = Some v)"
  shows "has_result response = Inr False \<or> (\<exists>e. has_result response = Inl e)"
proof (cases response)
  case (JObj kvs)
  with assms have "map_of kvs ''result'' = None" by (cases "map_of kvs ''result''") auto
  with JObj show ?thesis by (simp add: has_result_def)
qed (simp_all add: has_result_def)

lemma send_mcp_request_take:
  assumes "shd (writable p)"
    and "\<forall>m<n. \<exists>l. out p !! m = Some l \<and> discarded loads l"
    and "out p !! n = Some line"
    and "strip line \<noteq> []"
    and "\<not> startswith (strip line) ''time=''"
    and "loads (strip line) = Some response"
  shows "send_mcp_request loads p request =
           Some (response, p\<lparr>writable := stl (writable p), sent := sent p @ [request],
                             out := sdrop (Suc n) (out p)\<rparr>)"
proof -
  let ?p = "p\<lparr>writable := stl (writable p), sent := sent p @ [request]\<rparr>"
  let ?q = "?p\<lparr>out := sdrop n (out ?p)\<rparr>"
  from assms(2) have "\<forall>m<n. \<exists>l. out ?p !! m = Some l \<and> discarded loads l" by simp
  then have "read_response loads ?p = read_response loads ?q" by (rule read_response_skips)
  moreover from assms(3) have "shd (out ?q) = Some line" by simp
  then have "read_response loads ?q = Some (response, ?q\<lparr>out := stl (out ?q)\<rparr>)"
    using assms(4,5,6) by (rule read_response_take)
  moreover have "?q\<lparr>out := stl (out ?q)\<rparr>
      = p\<lparr>writable := stl (writable p), sent := sent p @ [request],
          out := sdrop (Suc n) (out p)\<rparr>"
    by simp
  ultimately show ?thesis using assms(1) by (simp add: send_mcp_request_def)
qed

subsection \<open>The scripted transcripts\<close>

lemma strip_examples:
  "strip log_line = ''time=2025-01-01T00:00:00Z level=info msg=starting''"
  "strip ''\<newline>'' = []"
  "strip ''INIT-OK\<newline>'' = ''INIT-OK''"
  "strip ''INIT-ERROR\<newline>'' = ''INIT-ERROR''"
  "strip ''TOOLS\<newline>'' = ''TOOLS''"
  "strip ''CALLED\<newline>'' = ''CALLED''"
  "strip ''Error: not json\<newline>'' = ''Error: not json''"
  "strip ''Error: no configuration\<newline>'' = ''Error: no configuration''"
  by (simp_all add: strip_def is_space_def log_line_def)

lemma discarded_examples:
  "discarded canned_loads log_line"
  "discarded canned_loads ''\<newline>''"
  "discarded canned_loads ''Error: not json\<newline>''"
  "discarded canned_loads ''Error: no configuration\<newline>''"
  unfolding discarded_def strip_examples
  by (simp_all add: startswith_def canned_loads_def log_line_def)

lemma good_lines:
  "good_transcript !! 0 = Some log_line"
  "good_transcript !! 1 = Some ''\<newline>''"
  "good_transcript !! 2 = Some ''INIT-OK\<newline>''"
  "good_transcript !! 3 = Some ''TOOLS\<newline>''"
  "good_transcript !! 4 = Some ''Error: not json\<newline>''"
  "good_transcript !! 5 = Some ''CALLED\<newline>''"
  by (simp_all add: good_transcript_def eval_nat_numeral)

lemma accepted_examples:
  "strip ''INIT-OK\<newline>'' \<noteq> []" "\<not> startswith (strip ''INIT-OK\<newline>'') ''time=''"
  "canned_loads (strip ''INIT-OK\<newline>'') = Some init_ok"
  "strip ''INIT-ERROR\<newline>'' \<noteq> []" "\<not> startswith (strip ''INIT-ERROR\<newline>'') ''time=''"
  "canned_loads (strip ''INIT-ERROR\<newline>'') = Some init_error"
  "strip ''TOOLS\<newline>'' \<noteq> []" "\<not> startswith (strip ''TOOLS\<newline>'') ''time=''"
  "canned_loads (strip ''TOOLS\<newline>'') = Some tools_ok"
  "strip ''CALLED\<newline>'' \<noteq> []" "\<not> startswith (strip ''CALLED\<newline>'') ''time=''"
  "canned_loads (strip ''CALLED\<newline>'') = Some call_ok"
  unfolding strip_examples by (simp_all add: startswith_def canned_loads_def)

lemma good_send_1:
  "send_mcp_request canned_loads (at_line 0 []) init_request
     = Some (init_ok, at_line 3 [init_request])"
proof -
  let ?p = "at_line 0 []"
  have h1: "shd (writable ?p)" by (simp add: at_line_def)
  have h2: "\<forall>m<2. \<exists>l. out ?p !! m = Some l \<and> discarded canned_loads l"
  proof (intro allI impI)
    fix m :: nat assume "m < 2"
    then have "m = 0 \<or> m = 1" by auto
    then show "\<exists>l. out ?p !! m = Some l \<and> discarded canned_loads l"
      using good_lines by (auto simp: at_line_def discarded_examples)
  qed
  have h3: "out ?p !! 2 = Some ''INIT-OK\<newline>''" using good_lines by (simp add: at_line_def)
  from send_mcp_request_take [OF h1 h2 h3 accepted_examples(1,2,3), of init_request]
  show ?thesis by (simp add: at_line_def eval_nat_numeral)
qed

lemma good_send_2:
  "send_mcp_request canned_loads (at_line 3 [init_request]) tools_request
     = Some (tools_ok, at_line 4 [init_request, tools_request])"
proof -
  let ?p = "at_line 3 [init_request]"
  have h1: "shd (writable ?p)" by (simp add: at_line_def)
  have h2: "\<forall>m<0. \<exists>l. out ?p !! m = Some l \<and> discarded canned_loads l" by simp
  have h3: "out ?p !! 0 = Some ''TOOLS\<newline>''"
    using good_lines by (simp add: at_line_def sdrop_snth)
  from send_mcp_request_take [OF h1 h2 h3 accepted_examples(7,8,9), of tools_request]
  show ?thesis by (simp add: at_line_def eval_nat_numeral)
qed

lemma good_send_3:
  "send_mcp_request canned_loads (at_line 4 [init_request, tools_request])
       (tool_request (JStr ''get_config''))
     = Some (call_ok, at_line 6 [init_request, tools_request, tool_request (JStr ''get_config'')])"
proof -
  let ?p = "at_line 4 [init_request, tools_request]"
  have h1: "shd (writable ?p)" by (simp add: at_line_def)
  have h2: "\<forall>m<1. \<exists>l. out ?p !! m = Some l \<and> discarded canned_loads l"
    using good_lines by (simp add: at_line_def sdrop_snth discarded_examples)
  have h3: "out ?p !! 1 = Some ''CALLED\<newline>''"
    using good_lines by (simp add: at_line_def sdrop_snth)
  from send_mcp_request_take
    [OF h1 h2 h3 accepted_examples(10,11,12), of "tool_request (JStr ''get_config'')"]
  show ?thesis by (simp add: at_line_def eval_nat_numeral)
qed

lemma good_transcript_run:
  "test_mcp_server canned_loads (Inr (server_with good_transcript))
     = Some (Finished None
         ((at_line 6 [init_request, tools_request, tool_request (JStr ''get_config'')])
            \<lparr>terminate_called := True\<rparr>))"
proof -
  have start: "server_with good_transcript = at_line 0 []"
    by (simp add: server_with_def at_line_def)
  have t1: "test_initialize canned_loads (at_line 0 []) = Some (Inr True, at_line 3 [init_request])"
    by (simp add: test_initialize_def good_send_1 has_result_def show_server_info_def init_ok_def)
  have t2: "test_list_tools canned_loads (at_line 3 [init_request])
      = Some (Inr tools_ok, at_line 4 [init_request, tools_request])"
    by (simp add: test_list_tools_def good_send_2 has_result_def show_tools_def tools_ok_def)
  have t3: "test_call_tool canned_loads tools_ok (at_line 4 [init_request, tools_request])
      = Some (Inr (), at_line 6 [init_request, tools_request, tool_request (JStr ''get_config'')])"
  proof -
    have "has_result tools_ok = Inr True" by (simp add: has_result_def tools_ok_def)
    moreover have "getitem_key tools_ok ''result''
        = Inr (JObj [(''tools'', JArr [JObj [(''name'', JStr ''get_config''),
                          (''description'', JStr ''Show the configuration'')]])])"
      by (simp add: tools_ok_def)
    moreover have "has_result call_ok = Inr True" by (simp add: has_result_def call_ok_def)
    moreover have "show_preview call_ok = Inr ()" by (simp add: show_preview_def call_ok_def)
    ultimately show ?thesis by (simp add: test_call_tool_def good_send_3)
  qed
  have "run_tests canned_loads (at_line 0 [])
      = Some (None, at_line 6 [init_request, tools_request, tool_request (JStr ''get_config'')])"
    by (simp add: run_tests_def t1 t2 t3)
  then show ?thesis
    by (simp add: test_mcp_server_def start teardown_def) (simp add: at_line_def)
qed

subsection \<open>The claims about the probe\<close>

text \<open>
  Claim C3. \<open>send_mcp_request\<close> writes the request and then reads lines: it reads over
  every line that begins with the log prefix, every line that \<open>json.loads\<close> rejects and
  every blank line, and returns the value of the first line that \<open>json.loads\<close> accepts.
  So when the first \<open>n\<close> lines are of the first kind and the next line, stripped, is not
  empty, does not begin with \<open>time=\<close> and parses to \<open>response\<close>, the call returns
  \<open>response\<close>, having consumed exactly these \<open>n + 1\<close> lines.
\<close>

theorem send_mcp_request_first_json:
  assumes "shd (writable p)"
    and "\<forall>m<n. \<exists>l. out p !! m = Some l \<and> discarded loads l"
    and "out p !! n = Some line"
    and "strip line \<noteq> []"
    and "\<not> startswith (strip line) ''time=''"
    and "loads (strip line) = Some response"
  shows "send_mcp_request loads p request =
           Some (response, p\<lparr>writable := stl (writable p), sent := sent p @ [request],
                             out := sdrop (Suc n) (out p)\<rparr>)"
  using assms by (rule send_mcp_request_take)

theorem send_mcp_request_first_json_witness:
  "send_mcp_request canned_loads (server_with good_transcript) init_request =
     Some (init_ok, (server_with good_transcript)
       \<lparr>writable := stl (writable (server_with good_transcript)),
        sent := sent (server_with good_transcript) @ [init_request],
        out := sdrop (Suc 2) (out (server_with good_transcript))\<rparr>)
   \<and> sent (server_with good_transcript) @ [init_request] = [init_request]"
proof -
  let ?p = "server_with good_transcript"
  have h1: "shd (writable ?p)" by (simp add: server_with_def)
  have h2: "\<forall>m<2. \<exists>l. out ?p !! m = Some l \<and> discarded canned_loads l"
  proof (intro allI impI)
    fix m :: nat assume "m < 2"
    then have "m = 0 \<or> m = Suc 0" by auto
    then show "\<exists>l. out ?p !! m = Some l \<and> discarded canned_loads l"
      by (auto simp: server_with_def good_transcript_def discarded_examples)
  qed
  have h3: "out ?p !! 2 = Some ''INIT-OK\<newline>''"
    by (simp add: server_with_def good_transcript_def numeral_2_eq_2)
  have h4: "strip ''INIT-OK\<newline>'' \<noteq> []"
    and h5: "\<not> startswith (strip ''INIT-OK\<newline>'') ''time=''"
    and h6: "canned_loads (strip ''INIT-OK\<newline>'') = Some init_ok"
    unfolding strip_examples by (simp_all add: startswith_def canned_loads_def)
  from send_mcp_request_first_json [OF h1 h2 h3 h4 h5 h6, of init_request]
  show ?thesis by (simp add: server_with_def)
qed

text \<open>
  Claim C9. When the output stream reaches its end (a read gives the empty string) after
  finitely many lines, \<open>send_mcp_request\<close> returns: it neither blocks nor raises. When no
  line before the end was accepted as JSON, what it returns is \<open>None\<close>. The call can fail
  to return only while the stream stays open.
\<close>

theorem send_mcp_request_end_of_stream:
  assumes "out p !! n = Some []" and "\<forall>m<n. \<exists>l. out p !! m = Some l"
  shows "(\<exists>r p'. send_mcp_request loads p request = Some (r, p'))
       \<and> ((\<forall>m<n. \<exists>l. out p !! m = Some l \<and> (l = [] \<or> discarded loads l)) \<longrightarrow>
            (\<exists>p'. send_mcp_request loads p request = Some (JNull, p')))"
proof (cases "shd (writable p)")
  case False
  then show ?thesis by (simp add: send_mcp_request_def)
next
  case True
  let ?p = "p\<lparr>writable := stl (writable p), sent := sent p @ [request]\<rparr>"
  from assms have e: "out ?p !! n = Some []" and a: "\<forall>m<n. \<exists>l. out ?p !! m = Some l"
    by simp_all
  from read_response_reaches_end [OF e a]
  have 1: "\<exists>r p'. send_mcp_request loads p request = Some (r, p')"
    using True by (simp add: send_mcp_request_def)
  have 2: "\<exists>p'. send_mcp_request loads p request = Some (JNull, p')"
    if "\<forall>m<n. \<exists>l. out p !! m = Some l \<and> (l = [] \<or> discarded loads l)"
  proof -
    from that have "\<forall>m<n. \<exists>l. out ?p !! m = Some l \<and> (l = [] \<or> discarded loads l)" by simp
    from read_response_nothing [OF e this] True show ?thesis
      by (simp add: send_mcp_request_def)
  qed
  from 1 2 show ?thesis by blast
qed

theorem send_mcp_request_end_of_stream_witness:
  "(\<exists>p'. send_mcp_request canned_loads (server_with closed_transcript) init_request
      = Some (JNull, p'))"
proof -
  let ?p = "server_with closed_transcript"
  have h1: "out ?p !! 2 = Some []"
    by (simp add: server_with_def closed_transcript_def numeral_2_eq_2)
  have "\<forall>m<2. \<exists>l. out ?p !! m = Some l \<and> discarded canned_loads l"
  proof (intro allI impI)
    fix m :: nat assume "m < 2"
    then have "m = 0 \<or> m = Suc 0" by auto
    then show "\<exists>l. out ?p !! m = Some l \<and> discarded canned_loads l"
      by (auto simp: server_with_def closed_transcript_def discarded_examples)
  qed
  then have h3: "\<forall>m<2. \<exists>l. out ?p !! m = Some l \<and> (l = [] \<or> discarded canned_loads l)"
    and h2: "\<forall>m<2. \<exists>l. out ?p !! m = Some l" by blast+
  from send_mcp_request_end_of_stream [OF h1 h2, of canned_loads init_request] h3
  show ?thesis by blast
qed

text \<open>
  Claim C4. When the initialize exchange returns a response without a \<open>result\<close> field
  (a dict that lacks the key, any value that is no dict, or \<open>None\<close>), the probe ends there:
  nothing is sent after the initialize request, neither \<open>tools/list\<close> nor \<open>tools/call\<close>,
  and the teardown runs: \<open>terminate\<close> is called, and \<open>kill\<close> when the process does
  not stop in time.
\<close>

theorem initialize_without_result_aborts:
  assumes "send_mcp_request loads p init_request = Some (response, p1)"
    and "\<not> (\<exists>kvs v. response = JObj kvs \<and> map_of kvs ''result'' = Some v)"
  shows "\<exists>caught final.
           test_mcp_server loads (Inr p) = Some (Finished caught final)
         \<and> sent final = sent p1
         \<and> (sent p1 = sent p \<or> sent p1 = sent p @ [init_request])
         \<and> terminate_called final
         \<and> (kill_called final \<or> stops_in_time p)"
proof -
  from has_result_without_field [OF assms(2)]
  have "\<exists>caught. run_tests loads p = Some (caught, p1)"
    using assms(1) by (auto simp: run_tests_def test_initialize_def)
  then obtain caught where "run_tests loads p = Some (caught, p1)" ..
  then have t: "test_mcp_server loads (Inr p) = Some (Finished caught (teardown p1))"
    by (simp add: test_mcp_server_def)
  from send_mcp_request_sent [OF assms(1)]
  have s: "sent p1 = sent p \<or> sent p1 = sent p @ [init_request]"
    and w: "stops_in_time p1 = stops_in_time p" by simp_all
  have "sent (teardown p1) = sent p1" and "terminate_called (teardown p1)"
    and "kill_called (teardown p1) \<or> stops_in_time p1"
    by (simp_all add: teardown_def)
  with t s w show ?thesis by auto
qed

theorem initialize_without_result_aborts_witness:
  "\<exists>caught final.
     test_mcp_server canned_loads (Inr (server_with bad_transcript)) = Some (Finished caught final)
   \<and> sent final = [init_request]
   \<and> terminate_called final"
proof -
  let ?p = "server_with bad_transcript"
  let ?p1 = "?p\<lparr>writable := stl (writable ?p), sent := sent ?p @ [init_request],
                 out := sdrop (Suc 1) (out ?p)\<rparr>"
  have h1: "shd (writable ?p)" by (simp add: server_with_def)
  have h2: "\<forall>m<1. \<exists>l. out ?p !! m = Some l \<and> discarded canned_loads l"
    by (simp add: server_with_def bad_transcript_def discarded_examples)
  have h3: "out ?p !! 1 = Some ''INIT-ERROR\<newline>''"
    by (simp add: server_with_def bad_transcript_def)
  from send_mcp_request_take [OF h1 h2 h3 accepted_examples(4,5,6), of init_request]
  have s: "send_mcp_request canned_loads ?p init_request = Some (init_error, ?p1)" .
  have n: "\<not> (\<exists>kvs v. init_error = JObj kvs \<and> map_of kvs ''result'' = Some v)"
    by (simp add: init_error_def)
  have "sent ?p1 = [init_request]" by (simp add: server_with_def)
  with initialize_without_result_aborts [OF s n] show ?thesis by auto
qed

end
